theory Spec2Isabelle
  imports
    Complex_Main
    "HOL-Library.Multiset"
    "HOL-Library.Char_ord"
    "HOL-Library.List_Lexorder"
    "HOL-Library.Product_Lexorder"
begin

section \<open>Ligretto tournament: seating design and seat-effect correction\<close>

text \<open>
  A shallow embedding of \<^verbatim>\<open>src/main.py\<close>. A pandas data frame is the list of its
  rows in index order; Python exceptions are values of type \<open>error\<close>; the outcome of
  \<^verbatim>\<open>random.shuffle\<close>, the text typed at \<^verbatim>\<open>input\<close>, the builtin \<^verbatim>\<open>float\<close> and the
  statsmodels routine \<^verbatim>\<open>mixedlm(...).fit()\<close> are parameters of the functions that use
  them. Scores are Python floats in the source and real numbers here, so rounding is
  not part of the model.
\<close>

subsection \<open>Exceptions\<close>

datatype error = IndexError | KeyError | EOFError | ValueError | LinAlgError

definition ebind :: "error + 'a \<Rightarrow> ('a \<Rightarrow> error + 'b) \<Rightarrow> error + 'b" where
  "ebind m f = (case m of Inl e \<Rightarrow> Inl e | Inr x \<Rightarrow> f x)"

text \<open>A comprehension or loop whose body may raise: the first exception ends it.\<close>

fun mapM :: "('a \<Rightarrow> error + 'b) \<Rightarrow> 'a list \<Rightarrow> error + 'b list" where
  "mapM f [] = Inr []"
| "mapM f (x # xs) =
     (case f x of
        Inl e \<Rightarrow> Inl e
      | Inr y \<Rightarrow> (case mapM f xs of Inl e \<Rightarrow> Inl e | Inr ys \<Rightarrow> Inr (y # ys)))"

text \<open>\<^verbatim>\<open>xs[i]\<close> for an index that is not negative.\<close>

definition getitem :: "'a list \<Rightarrow> nat \<Rightarrow> error + 'a" where
  "getitem xs i = (if i < length xs then Inr (xs ! i) else Inl IndexError)"

subsection \<open>\<^verbatim>\<open>generate_random_latin_square\<close>\<close>

text \<open>
  Line 13: \<^verbatim>\<open>L = [[(i + j) % n for j in range(n)] for i in range(n)]\<close>. For \<open>n = 0\<close>
  both ranges are empty and no remainder is computed.
\<close>

definition standard_lq :: "nat \<Rightarrow> nat list list" where
  "standard_lq n = map (\<lambda>i. map (\<lambda>j. (i + j) mod n) [0..<n]) [0..<n]"

text \<open>
  Lines 18 to 20: every cell is replaced by \<^verbatim>\<open>symbol_perm[L[i][j]]\<close>, in row-major
  order. \<open>symbol_perm\<close> is \<^verbatim>\<open>list(range(n))\<close> after \<^verbatim>\<open>random.shuffle\<close>.
\<close>

definition relabel :: "nat list \<Rightarrow> nat list list \<Rightarrow> error + nat list list" where
  "relabel symbol_perm L = mapM (mapM (getitem symbol_perm)) L"

text \<open>Lines 26 to 29: \<^verbatim>\<open>row = [L[i][col] for col in col_perm]\<close> for each \<open>i\<close>.\<close>

definition permute_columns :: "nat \<Rightarrow> nat list \<Rightarrow> nat list list \<Rightarrow> error + nat list list" where
  "permute_columns n col_perm L =
     mapM (\<lambda>i. ebind (getitem L i) (\<lambda>Li. mapM (getitem Li) col_perm)) [0..<n]"

definition generate_random_latin_square ::
    "nat \<Rightarrow> nat list \<Rightarrow> nat list \<Rightarrow> error + nat list list" where
  "generate_random_latin_square n symbol_perm col_perm =
     ebind (relabel symbol_perm (standard_lq n)) (permute_columns n col_perm)"

text \<open>What \<^verbatim>\<open>random.shuffle\<close> guarantees of \<^verbatim>\<open>list(range(n))\<close>: a rearrangement of it.\<close>

definition shuffled :: "nat \<Rightarrow> nat list \<Rightarrow> bool" where
  "shuffled n p \<longleftrightarrow> mset p = mset [0..<n]"

text \<open>The \<open>j\<close>-th column of a matrix given as the list of its rows.\<close>

definition column :: "nat list list \<Rightarrow> nat \<Rightarrow> nat list" where
  "column L j = map (\<lambda>row. row ! j) L"

subsection \<open>\<^verbatim>\<open>create_seating_plan\<close>\<close>

text \<open>A row of the seating plan frame, with the columns of lines 45 to 49.\<close>

record plan_row =
  Runde :: int
  Platz :: int
  Spieler :: string

text \<open>
  Lines 41 to 49: the two nested loops over \<^verbatim>\<open>range(n)\<close>, reading
  \<^verbatim>\<open>latin_sq[r][seat]\<close> and \<^verbatim>\<open>players[player_idx]\<close>.
\<close>

definition plan_data :: "nat list list \<Rightarrow> string list \<Rightarrow> nat \<Rightarrow> error + plan_row list" where
  "plan_data latin_sq players n =
     ebind
       (mapM (\<lambda>r. mapM (\<lambda>seat.
          ebind (getitem latin_sq r) (\<lambda>latin_sq_r.
          ebind (getitem latin_sq_r seat) (\<lambda>player_idx.
          ebind (getitem players player_idx) (\<lambda>player.
          Inr \<lparr>Runde = int r + 1, Platz = int seat + 1, Spieler = player\<rparr>))))
          [0..<n]) [0..<n])
       (\<lambda>rows. Inr (concat rows))"

text \<open>
  Lines 51 and 52. \<^verbatim>\<open>pd.DataFrame([])\<close> has no columns, so sorting it by
  \<^verbatim>\<open>"Runde"\<close> raises \<^verbatim>\<open>KeyError\<close>; otherwise the rows are sorted by the pair
  (Runde, Platz) and renumbered.
\<close>

definition seating_plan_of :: "nat list list \<Rightarrow> string list \<Rightarrow> error + plan_row list" where
  "seating_plan_of latin_sq players =
     ebind (plan_data latin_sq players (length players)) (\<lambda>rows.
       if rows = [] then Inl KeyError
       else Inr (sort_key (\<lambda>row. (Runde row, Platz row)) rows))"

definition create_seating_plan ::
    "string list \<Rightarrow> nat list \<Rightarrow> nat list \<Rightarrow> error + plan_row list" where
  "create_seating_plan players symbol_perm col_perm =
     ebind (generate_random_latin_square (length players) symbol_perm col_perm)
       (\<lambda>latin_sq. seating_plan_of latin_sq players)"

subsection \<open>The round loop of \<^verbatim>\<open>main\<close>: score entry and the ledger\<close>

text \<open>
  A row of \<^verbatim>\<open>df_all\<close>: the columns of line 59 and the two that the correction
  adds. A cell that pandas holds as \<^verbatim>\<open>NaN\<close> because it was never written is \<open>None\<close>.
\<close>

record obs = plan_row +
  Block :: int
  Punkte :: real
  Punkte_vorhergesagt :: "real option"
  Punkte_korr :: "real option"

text \<open>
  Lines 85 to 88. \<open>py_float\<close> is the builtin \<^verbatim>\<open>float\<close> on a string: \<open>None\<close> where it
  raises \<^verbatim>\<open>ValueError\<close>.
\<close>

definition read_score :: "(string \<Rightarrow> real option) \<Rightarrow> string \<Rightarrow> real" where
  "read_score py_float eingabe = (case py_float eingabe of Some punkte \<Rightarrow> punkte | None \<Rightarrow> 0)"

text \<open>
  Lines 80 to 89: one \<^verbatim>\<open>input\<close> per row of the round's plan; \<open>inputs\<close> is what
  remains to be read on standard input, whose end raises \<^verbatim>\<open>EOFError\<close>.
\<close>

fun ask_points ::
    "(string \<Rightarrow> real option) \<Rightarrow> plan_row list \<Rightarrow> string list \<Rightarrow> (string \<rightharpoonup> real)
       \<Rightarrow> error + (string \<rightharpoonup> real) \<times> string list" where
  "ask_points py_float [] inputs punkte_dict = Inr (punkte_dict, inputs)"
| "ask_points py_float (row # rows) [] punkte_dict = Inl EOFError"
| "ask_points py_float (row # rows) (eingabe # inputs) punkte_dict =
     ask_points py_float rows inputs
       (punkte_dict(Spieler row \<mapsto> read_score py_float eingabe))"

definition lookup :: "('k \<rightharpoonup> 'v) \<Rightarrow> 'k \<Rightarrow> error + 'v" where
  "lookup d k = (case d k of None \<Rightarrow> Inl KeyError | Some v \<Rightarrow> Inr v)"

text \<open>
  Lines 94 to 100: the row appended for a row of the round's plan; the two correction
  columns of the new row are empty.
\<close>

definition new_row :: "int \<Rightarrow> int \<Rightarrow> int \<Rightarrow> plan_row \<Rightarrow> real \<Rightarrow> obs" where
  "new_row block_count r n row punkte =
     \<lparr>Runde = r + (block_count - 1) * n, Platz = Platz row, Spieler = Spieler row,
      Block = block_count, Punkte = punkte, Punkte_vorhergesagt = None, Punkte_korr = None\<rparr>"

text \<open>
  Lines 92 to 100: one appended row per row of the round's plan; \<^verbatim>\<open>punkte_dict[sp]\<close>
  raises \<^verbatim>\<open>KeyError\<close> for a player without an entry.
\<close>

fun append_rows ::
    "int \<Rightarrow> int \<Rightarrow> int \<Rightarrow> (string \<rightharpoonup> real) \<Rightarrow> plan_row list \<Rightarrow> obs list \<Rightarrow> error + obs list" where
  "append_rows block_count r n punkte_dict [] df_all = Inr df_all"
| "append_rows block_count r n punkte_dict (row # rows) df_all =
     ebind (lookup punkte_dict (Spieler row)) (\<lambda>punkte.
       append_rows block_count r n punkte_dict rows
         (df_all @ [new_row block_count r n row punkte]))"

text \<open>The columns of \<^verbatim>\<open>df_all\<close> that line 59 declares.\<close>

definition raw_columns :: "obs \<Rightarrow> int \<times> int \<times> string \<times> int \<times> real" where
  "raw_columns row = (Block row, Runde row, Spieler row, Platz row, Punkte row)"

subsection \<open>The correction, lines 102 to 111\<close>

text \<open>
  What \<^verbatim>\<open>mixedlm(formula, data, groups).fit()\<close> hands back, as far as the program
  can see it: the fitted values in row order and the flag statsmodels sets when its
  optimiser has converged. The routine itself is a parameter; it may raise.
\<close>

record mixedlm_result =
  fittedvalues :: "real list"
  converged :: bool

type_synonym mixedlm = "string \<Rightarrow> obs list \<Rightarrow> string list \<Rightarrow> error + mixedlm_result"

definition nunique :: "'a list \<Rightarrow> nat" where
  "nunique xs = length (remdups xs)"

text \<open>
  Line 107: the column takes the fitted value with the same index; a row without one
  is left as \<^verbatim>\<open>NaN\<close>.
\<close>

definition set_vorhergesagt :: "real list \<Rightarrow> obs list \<Rightarrow> obs list" where
  "set_vorhergesagt fv df =
     map (\<lambda>(i, row). row\<lparr>Punkte_vorhergesagt := (if i < length fv then Some (fv ! i) else None)\<rparr>)
       (enumerate 0 df)"

text \<open>Line 108.\<close>

definition set_korr_from_vorhergesagt :: "obs list \<Rightarrow> obs list" where
  "set_korr_from_vorhergesagt df =
     map (\<lambda>row. row\<lparr>Punkte_korr := map_option (\<lambda>v. Punkte row - v) (Punkte_vorhergesagt row)\<rparr>) df"

text \<open>Line 111: \<^verbatim>\<open>groupby("Platz")["Punkte"].transform("mean")\<close> at a row with seat \<open>s\<close>.\<close>

definition seat_mean :: "obs list \<Rightarrow> int \<Rightarrow> real" where
  "seat_mean df s =
     (let g = filter (\<lambda>row. Platz row = s) df
      in sum_list (map Punkte g) / real (length g))"

definition naive_korr :: "obs list \<Rightarrow> obs list" where
  "naive_korr df = map (\<lambda>row. row\<lparr>Punkte_korr := Some (Punkte row - seat_mean df (Platz row))\<rparr>) df"

definition correct :: "mixedlm \<Rightarrow> obs list \<Rightarrow> error + obs list" where
  "correct fit df_all =
     (if 2 \<le> nunique (map Runde df_all) then
        ebind (fit ''Punkte ~ C(Platz)'' df_all (map Spieler df_all)) (\<lambda>result.
          Inr (set_korr_from_vorhergesagt (set_vorhergesagt (fittedvalues result) df_all)))
      else Inr (naive_korr df_all))"

subsection \<open>The running totals, lines 114 to 116\<close>

text \<open>A row of \<^verbatim>\<open>df_agg\<close>: the two group keys, the group's sum and its running total.\<close>

record agg_row =
  agg_Runde :: int
  agg_Spieler :: string
  agg_Punkte_korr :: real
  Punkte_korr_cum :: real

text \<open>A sum in pandas passes over \<^verbatim>\<open>NaN\<close>.\<close>

definition korr_value :: "obs \<Rightarrow> real" where
  "korr_value row = (case Punkte_korr row of None \<Rightarrow> 0 | Some v \<Rightarrow> v)"

text \<open>Line 114: one row per (Runde, Spieler) that occurs, keys in increasing order.\<close>

definition group_sums :: "obs list \<Rightarrow> (int \<times> string \<times> real) list" where
  "group_sums df_all =
     map (\<lambda>(r, p). (r, p, sum_list (map korr_value
                          (filter (\<lambda>row. Runde row = r \<and> Spieler row = p) df_all))))
       (sort (remdups (map (\<lambda>row. (Runde row, Spieler row)) df_all)))"

text \<open>
  Line 115: the running sum within each player's group, in row order; \<open>acc\<close> holds
  each player's total so far.
\<close>

fun cumsum_by_Spieler :: "(string \<Rightarrow> real) \<Rightarrow> (int \<times> string \<times> real) list \<Rightarrow> agg_row list" where
  "cumsum_by_Spieler acc [] = []"
| "cumsum_by_Spieler acc ((r, p, v) # rest) =
     \<lparr>agg_Runde = r, agg_Spieler = p, agg_Punkte_korr = v, Punkte_korr_cum = acc p + v\<rparr>
       # cumsum_by_Spieler (acc(p := acc p + v)) rest"

text \<open>
  Lines 114 and 115 together. On a ledger without rows pandas raises
  \<^verbatim>\<open>KeyError\<close> in line 115.
\<close>

definition df_agg :: "obs list \<Rightarrow> error + agg_row list" where
  "df_agg df_all =
     (if df_all = [] then Inl KeyError
      else Inr (cumsum_by_Spieler (\<lambda>p. 0) (group_sums df_all)))"

text \<open>
  Line 116: \<^verbatim>\<open>pivot\<close> lays the running totals out by round (rows) and player
  (columns), raising \<^verbatim>\<open>ValueError\<close> when a (round, player) pair occurs twice;
  \<^verbatim>\<open>fillna(0)\<close> then writes 0 into every cell that has no entry.
\<close>

definition pivot_cell :: "agg_row list \<Rightarrow> int \<Rightarrow> string \<Rightarrow> real option" where
  "pivot_cell agg r p =
     map_option Punkte_korr_cum (find (\<lambda>a. agg_Runde a = r \<and> agg_Spieler a = p) agg)"

definition fillna0 :: "real option \<Rightarrow> real" where
  "fillna0 c = (case c of None \<Rightarrow> 0 | Some v \<Rightarrow> v)"

definition pivot_cum :: "agg_row list \<Rightarrow> error + (int \<times> (string \<times> real) list) list" where
  "pivot_cum agg =
     (if \<not> distinct (map (\<lambda>a. (agg_Runde a, agg_Spieler a)) agg) then Inl ValueError
      else Inr (map (\<lambda>r. (r, map (\<lambda>p. (p, fillna0 (pivot_cell agg r p)))
                                (sort (remdups (map agg_Spieler agg)))))
                  (sort (remdups (map agg_Runde agg)))))"

subsection \<open>One pass of the round loop, lines 75 to 116\<close>

definition round_step ::
    "mixedlm \<Rightarrow> (string \<Rightarrow> real option) \<Rightarrow> int \<Rightarrow> int \<Rightarrow> int \<Rightarrow> plan_row list \<Rightarrow> string list
       \<Rightarrow> obs list \<Rightarrow> error + obs list \<times> (int \<times> (string \<times> real) list) list \<times> string list" where
  "round_step fit py_float block_count r n seating_plan inputs df_all =
     (let round_plan = filter (\<lambda>row. Runde row = r) seating_plan in
      ebind (ask_points py_float round_plan inputs Map.empty) (\<lambda>(punkte_dict, inputs').
      ebind (append_rows block_count r n punkte_dict round_plan df_all) (\<lambda>df_all'.
      ebind (correct fit df_all') (\<lambda>df_all''.
      ebind (df_agg df_all'') (\<lambda>agg.
      ebind (pivot_cum agg) (\<lambda>pivot.
      Inr (df_all'', pivot, inputs')))))))"

subsection \<open>Concrete inputs\<close>

text \<open>
  The ledger of the specification's example: one round, seats 1, 2, 3 with raw scores
  10, 20, 30.
\<close>

definition ledger_one_round :: "obs list" where
  "ledger_one_round =
     [\<lparr>Runde = 1, Platz = 1, Spieler = ''A'', Block = 1, Punkte = 10,
        Punkte_vorhergesagt = None, Punkte_korr = None\<rparr>,
      \<lparr>Runde = 1, Platz = 2, Spieler = ''B'', Block = 1, Punkte = 20,
        Punkte_vorhergesagt = None, Punkte_korr = None\<rparr>,
      \<lparr>Runde = 1, Platz = 3, Spieler = ''C'', Block = 1, Punkte = 30,
        Punkte_vorhergesagt = None, Punkte_korr = None\<rparr>]"

text \<open>A ledger of two rounds with two players, each on each seat once.\<close>

definition ledger_two_rounds :: "obs list" where
  "ledger_two_rounds =
     [\<lparr>Runde = 1, Platz = 1, Spieler = ''A'', Block = 1, Punkte = 12,
        Punkte_vorhergesagt = None, Punkte_korr = None\<rparr>,
      \<lparr>Runde = 1, Platz = 2, Spieler = ''B'', Block = 1, Punkte = 8,
        Punkte_vorhergesagt = None, Punkte_korr = None\<rparr>,
      \<lparr>Runde = 2, Platz = 1, Spieler = ''B'', Block = 1, Punkte = 15,
        Punkte_vorhergesagt = None, Punkte_korr = None\<rparr>,
      \<lparr>Runde = 2, Platz = 2, Spieler = ''A'', Block = 1, Punkte = 9,
        Punkte_vorhergesagt = None, Punkte_korr = None\<rparr>]"

text \<open>
  Two behaviours the fitting routine can show: raising (a singular design raises
  \<^verbatim>\<open>LinAlgError\<close>) and returning a given result.
\<close>

definition fit_raises :: mixedlm where
  "fit_raises formula data groups = Inl LinAlgError"

definition fit_returns :: "mixedlm_result \<Rightarrow> mixedlm" where
  "fit_returns result formula data groups = Inr result"

text \<open>The first round of a seating plan for the players A and B, and the whole plan.\<close>

definition round_plan2 :: "plan_row list" where
  "round_plan2 =
     [\<lparr>Runde = 1, Platz = 1, Spieler = ''A''\<rparr>, \<lparr>Runde = 1, Platz = 2, Spieler = ''B''\<rparr>]"

definition seating_plan2 :: "plan_row list" where
  "seating_plan2 =
     [\<lparr>Runde = 1, Platz = 1, Spieler = ''A''\<rparr>, \<lparr>Runde = 1, Platz = 2, Spieler = ''B''\<rparr>,
      \<lparr>Runde = 2, Platz = 1, Spieler = ''B''\<rparr>, \<lparr>Runde = 2, Platz = 2, Spieler = ''A''\<rparr>]"

text \<open>
  A row of a ledger that has been through the correction of lines 104 to 108: raw score
  \<open>punkte\<close>, fitted value \<open>v\<close>.
\<close>

definition corrected_row :: "int \<Rightarrow> string \<Rightarrow> int \<Rightarrow> real \<Rightarrow> real \<Rightarrow> obs" where
  "corrected_row r p s punkte v =
     \<lparr>Runde = r, Platz = s, Spieler = p, Block = 1, Punkte = punkte,
      Punkte_vorhergesagt = Some v, Punkte_korr = Some (punkte - v)\<rparr>"

text \<open>
  Three rounds of the players A and B. The raw scores of A are 12, 7, 14 and the corrected
  ones 2, -1, 3; those of B are 9, 11, 6 and 1, 0, -3.
\<close>

definition ledger_three_rounds :: "obs list" where
  "ledger_three_rounds =
     [corrected_row 1 ''A'' 1 12 10, corrected_row 1 ''B'' 2 9 8,
      corrected_row 2 ''B'' 1 11 11, corrected_row 2 ''A'' 2 7 8,
      corrected_row 3 ''A'' 1 14 11, corrected_row 3 ''B'' 2 6 9]"

section \<open>Properties of the generator\<close>

lemma ebind_Inr [simp]: "ebind (Inr x) f = f x"
  by (simp add: ebind_def)

lemma ebind_Inl [simp]: "ebind (Inl e) f = Inl e"
  by (simp add: ebind_def)

lemma mapM_Inr:
  "(\<And>x. x \<in> set xs \<Longrightarrow> f x = Inr (g x)) \<Longrightarrow> mapM f xs = Inr (map g xs)"
  by (induction xs) simp_all

lemma shuffled_length: "shuffled n p \<Longrightarrow> length p = n"
  unfolding shuffled_def by (metis size_mset length_upt diff_zero)

lemma shuffled_set: "shuffled n p \<Longrightarrow> set p = {0..<n}"
  unfolding shuffled_def by (metis set_mset_mset set_upt)

lemma shuffled_nth: "shuffled n p \<Longrightarrow> mset (map ((!) p) [0..<n]) = mset [0..<n]"
  using shuffled_length [of n p] unfolding shuffled_def by (metis map_nth)

lemma rot_eq:
  assumes "a \<le> b" "b < n" "(i + a) mod n = (i + b) mod (n::nat)"
  shows "a = b"
proof -
  have "n dvd (i + b) - (i + a)"
    using assms by (metis mod_eq_dvd_iff_nat add_le_cancel_left)
  then have "n dvd b - a" by simp
  moreover have "b - a < n" using assms by simp
  ultimately have "b - a = 0" by (meson dvd_imp_le not_le zero_less_iff_neq_zero)
  with assms show ?thesis by simp
qed

lemma rot_inj: "inj_on (\<lambda>j. (i + j) mod n) {0..<n::nat}"
proof (rule inj_onI)
  fix a b assume "a \<in> {0..<n}" "b \<in> {0..<n}" and e: "(i + a) mod n = (i + b) mod n"
  then have "a < n" "b < n" by simp_all
  then show "a = b"
    using rot_eq [of a b n i] rot_eq [of b a n i] e by (cases "a \<le> b") simp_all
qed

lemma rot_image: "0 < n \<Longrightarrow> (\<lambda>j. (i + j) mod n) ` {0..<n::nat} = {0..<n}"
proof -
  assume n: "0 < n"
  have "(\<lambda>j. (i + j) mod n) ` {0..<n} \<subseteq> {0..<n}" using n by auto
  moreover have "card ((\<lambda>j. (i + j) mod n) ` {0..<n}) = card {0..<n}"
    by (rule card_image [OF rot_inj])
  ultimately show ?thesis by (simp add: card_subset_eq)
qed

lemma rot_mset: "mset (map (\<lambda>j. (i + j) mod n) [0..<n]) = mset [0..<n]"
proof (cases "n = 0")
  case True then show ?thesis by simp
next
  case False
  then have "image_mset (\<lambda>j. (i + j) mod n) (mset_set {0..<n}) = mset_set {0..<n}"
    by (simp add: image_mset_mset_set [OF rot_inj] rot_image)
  then show ?thesis by simp
qed


lemma relabel_closed:
  assumes "shuffled n symbol_perm"
  shows "relabel symbol_perm (standard_lq n) = Inr (map (map ((!) symbol_perm)) (standard_lq n))"
proof -
  have len: "length symbol_perm = n" by (rule shuffled_length [OF assms])
  have row: "mapM (getitem symbol_perm) row = Inr (map ((!) symbol_perm) row)"
    if "row \<in> set (standard_lq n)" for row
  proof (rule mapM_Inr)
    fix v assume "v \<in> set row"
    with that have "v < n" by (auto simp: standard_lq_def)
    then show "getitem symbol_perm v = Inr (symbol_perm ! v)" by (simp add: getitem_def len)
  qed
  show ?thesis unfolding relabel_def by (rule mapM_Inr) (rule row)
qed

lemma permute_columns_closed:
  assumes "shuffled n col_perm" "length L = n" "\<And>row. row \<in> set L \<Longrightarrow> length row = n"
  shows "permute_columns n col_perm L = Inr (map (\<lambda>i. map ((!) (L ! i)) col_perm) [0..<n])"
  unfolding permute_columns_def
proof (rule mapM_Inr)
  fix i assume "i \<in> set [0..<n]"
  then have i: "i < length L" using assms(2) by simp
  then have "length (L ! i) = n" using assms(3) by simp
  then have "mapM (getitem (L ! i)) col_perm = Inr (map ((!) (L ! i)) col_perm)"
    using shuffled_set [OF assms(1)] by (intro mapM_Inr) (simp add: getitem_def)
  then show "ebind (getitem L i) (\<lambda>Li. mapM (getitem Li) col_perm) = Inr (map ((!) (L ! i)) col_perm)"
    using i by (simp add: getitem_def)
qed

lemma generate_closed:
  assumes "shuffled n symbol_perm" "shuffled n col_perm"
  shows "generate_random_latin_square n symbol_perm col_perm =
           Inr (map (\<lambda>i. map (\<lambda>col. symbol_perm ! ((i + col) mod n)) col_perm) [0..<n])"
proof -
  let ?L = "map (map ((!) symbol_perm)) (standard_lq n)"
  have "permute_columns n col_perm ?L = Inr (map (\<lambda>i. map ((!) (?L ! i)) col_perm) [0..<n])"
    by (rule permute_columns_closed [OF assms(2)]) (auto simp: standard_lq_def)
  moreover have "map ((!) (?L ! i)) col_perm = map (\<lambda>col. symbol_perm ! ((i + col) mod n)) col_perm"
    if "i < n" for i
    using that shuffled_set [OF assms(2)] by (simp add: standard_lq_def)
  ultimately show ?thesis
    by (simp add: generate_random_latin_square_def relabel_closed [OF assms(1)] cong: map_cong)
qed

lemma relabel_mset:
  assumes "shuffled n symbol_perm" "mset xs = mset [0..<n]"
  shows "mset (map ((!) symbol_perm) xs) = mset [0..<n]"
proof -
  have "mset (map ((!) symbol_perm) xs) = mset (map ((!) symbol_perm) [0..<n])"
    using assms(2) by (metis mset_map)
  then show ?thesis by (simp only: shuffled_nth [OF assms(1)])
qed

lemma row_mset:
  assumes "shuffled n symbol_perm" "shuffled n col_perm"
  shows "mset (map (\<lambda>col. symbol_perm ! ((i + col) mod n)) col_perm) = mset [0..<n]"
proof -
  have "mset (map (\<lambda>col. (i + col) mod n) col_perm) = mset (map (\<lambda>col. (i + col) mod n) [0..<n])"
    using assms(2) unfolding shuffled_def by (metis mset_map)
  then have "mset (map (\<lambda>col. (i + col) mod n) col_perm) = mset [0..<n]"
    by (simp only: rot_mset)
  from relabel_mset [OF assms(1) this] show ?thesis by (simp add: comp_def)
qed

lemma column_mset:
  assumes "shuffled n symbol_perm"
  shows "mset (map (\<lambda>i. symbol_perm ! ((i + c) mod n)) [0..<n]) = mset [0..<n]"
proof -
  have "mset (map (\<lambda>i. (c + i) mod n) [0..<n]) = mset [0..<n]" by (rule rot_mset)
  from relabel_mset [OF assms this] show ?thesis by (simp add: comp_def add.commute)
qed

text \<open>
  Claim C1. For every \<open>n\<close> (the degenerate \<open>n = 1\<close> included) and every outcome of the
  two shuffles, the generator raises nothing and returns an \<open>n\<close>-by-\<open>n\<close> matrix in
  which every row and every column is a permutation of \<open>0, ..., n - 1\<close>.
\<close>

theorem generator_latin_square:
  assumes "shuffled n symbol_perm" "shuffled n col_perm"
  shows "\<exists>L. generate_random_latin_square n symbol_perm col_perm = Inr L
           \<and> length L = n
           \<and> (\<forall>row \<in> set L. length row = n \<and> mset row = mset [0..<n])
           \<and> (\<forall>j < n. mset (column L j) = mset [0..<n])"
proof -
  let ?L = "map (\<lambda>i. map (\<lambda>col. symbol_perm ! ((i + col) mod n)) col_perm) [0..<n]"
  have cl: "length col_perm = n" by (rule shuffled_length [OF assms(2)])
  have rows: "\<forall>row \<in> set ?L. length row = n \<and> mset row = mset [0..<n]"
    using row_mset [OF assms] cl by auto
  have cols: "mset (column ?L j) = mset [0..<n]" if "j < n" for j
  proof -
    have "column ?L j = map (\<lambda>i. symbol_perm ! ((i + col_perm ! j) mod n)) [0..<n]"
      using that cl by (simp add: column_def)
    then show ?thesis by (simp only: column_mset [OF assms(1)])
  qed
  show ?thesis
    using generate_closed [OF assms] rows cols by (intro exI [of _ ?L]) simp
qed

theorem generator_latin_square_witness:
  "shuffled 3 [2, 0, 1] \<and> shuffled 3 [1, 2, 0]
   \<and> (\<exists>L. generate_random_latin_square 3 [2, 0, 1] [1, 2, 0] = Inr L
           \<and> length L = 3
           \<and> (\<forall>row \<in> set L. length row = 3 \<and> mset row = mset [0..<3])
           \<and> (\<forall>j < 3. mset (column L j) = mset [0..<3]))
   \<and> shuffled 1 [0]
   \<and> (\<exists>L. generate_random_latin_square 1 [0] [0] = Inr L
           \<and> length L = 1
           \<and> (\<forall>row \<in> set L. length row = 1 \<and> mset row = mset [0..<1])
           \<and> (\<forall>j < 1. mset (column L j) = mset [0..<1]))"
proof -
  have a: "shuffled 3 [2, 0, 1]" by (simp add: shuffled_def upt_rec)
  have b: "shuffled 3 [1, 2, 0]" by (simp add: shuffled_def upt_rec)
  have c: "shuffled 1 [0]" by (simp add: shuffled_def)
  show ?thesis
    using a b c generator_latin_square [OF a b] generator_latin_square [OF c c] by blast
qed

section \<open>Properties of the seating plan\<close>

lemma upto_from_1: "map (\<lambda>k. int k + 1) [0..<n] = [1..int n]"
proof (induction n)
  case 0 show ?case by simp
next
  case (Suc n)
  have "[1..int (Suc n)] = [1..int n] @ [int n + 1]"
    using upto_rec2 [of 1 "int n + 1"] by (simp add: add.commute)
  with Suc show ?case by simp
qed

lemma one_based: "k \<in> {1..int n} \<Longrightarrow> \<exists>k0 < n. k = int k0 + 1"
  by (rule exI [of _ "nat (k - 1)"]) auto

lemma grid_length: "length (concat (map (\<lambda>r. map (g r) [0..<n]) [0..<m])) = m * n"
  by (induction m) simp_all

lemma filter_one:
  assumes "\<And>s. s < n \<Longrightarrow> (P (h s) \<longleftrightarrow> s = s0)" "s0 < n"
  shows "filter P (map h [0..<n]) = [h s0]"
  using assms
proof (induction n)
  case 0 then show ?case by simp
next
  case (Suc n)
  show ?case
  proof (cases "s0 = n")
    case True
    then have "filter P (map h [0..<n]) = []" using Suc.prems(1) by (auto simp: filter_empty_conv)
    then show ?thesis using True Suc.prems(1) [of n] by simp
  next
    case False
    then have "s0 < n" using Suc.prems(2) by simp
    then have "filter P (map h [0..<n]) = [h s0]" using Suc.IH Suc.prems(1) by simp
    then show ?thesis using False Suc.prems(1) [of n] by simp
  qed
qed

lemma grid_filter_col:
  assumes "\<And>r s. r < m \<Longrightarrow> s < n \<Longrightarrow> (P (g r s) \<longleftrightarrow> s = s0)" "s0 < n"
  shows "filter P (concat (map (\<lambda>r. map (g r) [0..<n]) [0..<m])) = map (\<lambda>r. g r s0) [0..<m]"
  using assms(1)
proof (induction m)
  case 0 show ?case by simp
next
  case (Suc m)
  have "filter P (map (g m) [0..<n]) = [g m s0]"
    using Suc.prems [of m] assms(2) by (intro filter_one) simp_all
  then show ?case using Suc.IH Suc.prems by simp
qed

lemma grid_filter_row:
  assumes "\<And>r s. r < m \<Longrightarrow> s < n \<Longrightarrow> (P (g r s) \<longleftrightarrow> r = r0)" "r0 < m"
  shows "filter P (concat (map (\<lambda>r. map (g r) [0..<n]) [0..<m])) = map (g r0) [0..<n]"
  using assms
proof (induction m)
  case 0 then show ?case by simp
next
  case (Suc m)
  show ?case
  proof (cases "r0 = m")
    case True
    have "filter P (concat (map (\<lambda>r. map (g r) [0..<n]) [0..<m])) = []"
      using Suc.prems(1) True by (auto simp: filter_empty_conv)
    moreover have "filter P (map (g m) [0..<n]) = map (g m) [0..<n]"
      using Suc.prems(1) [of m] True by (auto simp: filter_id_conv)
    ultimately show ?thesis using True by simp
  next
    case False
    then have "r0 < m" using Suc.prems(2) by simp
    then have "filter P (concat (map (\<lambda>r. map (g r) [0..<n]) [0..<m])) = map (g r0) [0..<n]"
      using Suc.IH Suc.prems(1) by simp
    moreover have "filter P (map (g m) [0..<n]) = []"
      using Suc.prems(1) [of m] False by (auto simp: filter_empty_conv)
    ultimately show ?thesis by simp
  qed
qed

lemma grid_sorted:
  "sorted (concat (map (\<lambda>r. map (\<lambda>s. (int r + 1, int s + 1)) [0..<n]) [0..<m]))"
proof (induction m)
  case 0 show ?case by simp
next
  case (Suc m)
  have "sorted (map (\<lambda>s. (int m + 1, int s + 1)) [0..<n])"
    by (induction n) (auto simp: sorted_append)
  then show ?case using Suc by (auto simp: sorted_append)
qed


lemma plan_data_closed:
  assumes "length L = n" "\<And>row. row \<in> set L \<Longrightarrow> length row = n \<and> set row \<subseteq> {0..<length players}"
  shows "plan_data L players n =
           Inr (concat (map (\<lambda>r. map (\<lambda>seat.
                  \<lparr>Runde = int r + 1, Platz = int seat + 1, Spieler = players ! (L ! r ! seat)\<rparr>)
                  [0..<n]) [0..<n]))"
proof -
  let ?cell = "\<lambda>r seat. \<lparr>Runde = int r + 1, Platz = int seat + 1, Spieler = players ! (L ! r ! seat)\<rparr>"
  let ?body = "\<lambda>r seat. ebind (getitem L r) (\<lambda>latin_sq_r.
          ebind (getitem latin_sq_r seat) (\<lambda>player_idx.
          ebind (getitem players player_idx) (\<lambda>player.
          Inr \<lparr>Runde = int r + 1, Platz = int seat + 1, Spieler = player\<rparr>)))"
  have cell: "?body r seat = Inr (?cell r seat)" if "r < n" "seat < n" for r seat
  proof -
    have r: "L ! r \<in> set L" using that(1) assms(1) by simp
    then have len: "length (L ! r) = n" using assms(2) by simp
    then have "L ! r ! seat \<in> set (L ! r)" using that(2) by simp
    then have "L ! r ! seat < length players" using assms(2) [OF r] by auto
    then show ?thesis using that assms(1) len by (simp add: getitem_def)
  qed
  have "mapM (?body r) [0..<n] = Inr (map (?cell r) [0..<n])" if "r < n" for r
    using that by - (rule mapM_Inr, simp add: cell)
  then have "mapM (\<lambda>r. mapM (?body r) [0..<n]) [0..<n] = Inr (map (\<lambda>r. map (?cell r) [0..<n]) [0..<n])"
    by - (rule mapM_Inr, simp)
  then show ?thesis by (simp add: plan_data_def)
qed

lemma create_seating_plan_closed:
  assumes "players \<noteq> []" "shuffled (length players) symbol_perm" "shuffled (length players) col_perm"
  shows "\<exists>L. generate_random_latin_square (length players) symbol_perm col_perm = Inr L \<and>
           create_seating_plan players symbol_perm col_perm =
             Inr (concat (map (\<lambda>r. map (\<lambda>seat.
                    \<lparr>Runde = int r + 1, Platz = int seat + 1, Spieler = players ! (L ! r ! seat)\<rparr>)
                    [0..<length players]) [0..<length players]))"
proof -
  let ?n = "length players"
  let ?L = "map (\<lambda>i. map (\<lambda>col. symbol_perm ! ((i + col) mod ?n)) col_perm) [0..<?n]"
  let ?cell = "\<lambda>r seat. \<lparr>Runde = int r + 1, Platz = int seat + 1, Spieler = players ! (?L ! r ! seat)\<rparr>"
  let ?grid = "concat (map (\<lambda>r. map (?cell r) [0..<?n]) [0..<?n])"
  have n: "0 < ?n" using assms(1) by simp
  have gen: "generate_random_latin_square ?n symbol_perm col_perm = Inr ?L"
    by (rule generate_closed [OF assms(2,3)])
  have sp: "symbol_perm ! k < ?n" if "k < ?n" for k
    using shuffled_set [OF assms(2)] shuffled_length [OF assms(2)] that
    by (metis atLeastLessThan_iff nth_mem)
  have rows: "length row = ?n \<and> set row \<subseteq> {0..<?n}" if "row \<in> set ?L" for row
    using that shuffled_length [OF assms(3)] sp n by auto
  have pd: "plan_data ?L players ?n = Inr ?grid"
    by (rule plan_data_closed) (use rows in simp_all)
  have "length ?grid = ?n * ?n" by (rule grid_length)
  then have ne: "?grid \<noteq> []" using n by (metis length_0_conv mult_is_0 less_numeral_extra(3))
  have "map (\<lambda>row. (Runde row, Platz row)) ?grid
          = concat (map (\<lambda>r. map (\<lambda>s. (int r + 1, int s + 1)) [0..<?n]) [0..<?n])"
    by (simp add: map_concat comp_def)
  then have "sorted (map (\<lambda>row. (Runde row, Platz row)) ?grid)"
    by (simp only: grid_sorted)
  then have "sort_key (\<lambda>row. (Runde row, Platz row)) ?grid = ?grid"
    by (rule sort_key_id_if_sorted)
  then have "seating_plan_of ?L players = Inr ?grid"
    using pd ne by (simp add: seating_plan_of_def)
  then show ?thesis using gen by (intro exI [of _ ?L]) (simp add: create_seating_plan_def)
qed

text \<open>
  Claim C5. For a player list of length \<open>n \<ge> 1\<close> and any outcome of the two shuffles,
  \<^verbatim>\<open>create_seating_plan\<close> returns exactly \<open>n\<^sup>2\<close> rows, with round and seat
  numbered from 1 to \<open>n\<close> and in increasing order of (round, seat); the rows of a
  round carry the seats 1 to \<open>n\<close> once each, and the rows of a seat carry the rounds
  1 to \<open>n\<close> once each.
\<close>

theorem seating_plan_shape:
  assumes "players \<noteq> []"
      and "shuffled (length players) symbol_perm" and "shuffled (length players) col_perm"
  shows "\<exists>plan. create_seating_plan players symbol_perm col_perm = Inr plan
           \<and> length plan = (length players)\<^sup>2
           \<and> sorted (map (\<lambda>row. (Runde row, Platz row)) plan)
           \<and> (\<forall>r \<in> {1..int (length players)}.
                 map Platz (filter (\<lambda>row. Runde row = r) plan) = [1..int (length players)])
           \<and> (\<forall>s \<in> {1..int (length players)}.
                 map Runde (filter (\<lambda>row. Platz row = s) plan) = [1..int (length players)])
           \<and> (\<forall>row \<in> set plan. Runde row \<in> {1..int (length players)}
                                \<and> Platz row \<in> {1..int (length players)})"
proof -
  let ?n = "length players"
  from create_seating_plan_closed [OF assms] obtain L where
    plan: "create_seating_plan players symbol_perm col_perm =
             Inr (concat (map (\<lambda>r. map (\<lambda>seat.
                    \<lparr>Runde = int r + 1, Platz = int seat + 1, Spieler = players ! (L ! r ! seat)\<rparr>)
                    [0..<?n]) [0..<?n]))"
    by blast
  let ?cell = "\<lambda>r seat. \<lparr>Runde = int r + 1, Platz = int seat + 1, Spieler = players ! (L ! r ! seat)\<rparr>"
  let ?grid = "concat (map (\<lambda>r. map (?cell r) [0..<?n]) [0..<?n])"
  have len: "length ?grid = ?n\<^sup>2" by (simp add: grid_length power2_eq_square)
  have "map (\<lambda>row. (Runde row, Platz row)) ?grid
          = concat (map (\<lambda>r. map (\<lambda>s. (int r + 1, int s + 1)) [0..<?n]) [0..<?n])"
    by (simp add: map_concat comp_def)
  then have srt: "sorted (map (\<lambda>row. (Runde row, Platz row)) ?grid)"
    by (simp only: grid_sorted)
  have byround: "map Platz (filter (\<lambda>row. Runde row = r) ?grid) = [1..int ?n]"
    if "r \<in> {1..int ?n}" for r
  proof -
    from one_based [OF that] obtain r0 where r0: "r0 < ?n" "r = int r0 + 1" by blast
    have "filter (\<lambda>row. Runde row = r) ?grid = map (?cell r0) [0..<?n]"
      by (rule grid_filter_row) (use r0 in simp_all)
    then show ?thesis by (simp add: comp_def upto_from_1)
  qed
  have byseat: "map Runde (filter (\<lambda>row. Platz row = s) ?grid) = [1..int ?n]"
    if "s \<in> {1..int ?n}" for s
  proof -
    from one_based [OF that] obtain s0 where s0: "s0 < ?n" "s = int s0 + 1" by blast
    have "filter (\<lambda>row. Platz row = s) ?grid = map (\<lambda>r. ?cell r s0) [0..<?n]"
      by (rule grid_filter_col) (use s0 in simp_all)
    then show ?thesis by (simp add: comp_def upto_from_1)
  qed
  have rng: "Runde row \<in> {1..int ?n} \<and> Platz row \<in> {1..int ?n}" if "row \<in> set ?grid" for row
    using that by auto
  show ?thesis
    unfolding plan using len srt byround byseat rng by (intro exI [of _ ?grid]) blast
qed


theorem seating_plan_shape_witness:
  "[''A'', ''B''] \<noteq> [] \<and> shuffled (length [''A'', ''B'']) [1, 0]
   \<and> shuffled (length [''A'', ''B'']) [0, 1]
   \<and> (\<exists>plan. create_seating_plan [''A'', ''B''] [1, 0] [0, 1] = Inr plan
           \<and> length plan = (length [''A'', ''B''])\<^sup>2
           \<and> sorted (map (\<lambda>row. (Runde row, Platz row)) plan)
           \<and> (\<forall>r \<in> {1..int (length [''A'', ''B''])}.
                 map Platz (filter (\<lambda>row. Runde row = r) plan) = [1..int (length [''A'', ''B''])])
           \<and> (\<forall>s \<in> {1..int (length [''A'', ''B''])}.
                 map Runde (filter (\<lambda>row. Platz row = s) plan) = [1..int (length [''A'', ''B''])])
           \<and> (\<forall>row \<in> set plan. Runde row \<in> {1..int (length [''A'', ''B''])}
                                \<and> Platz row \<in> {1..int (length [''A'', ''B''])}))"
proof -
  have a: "[''A'', ''B''] \<noteq> []" by simp
  have b: "shuffled (length [''A'', ''B'']) [1, 0]" by (simp add: shuffled_def upt_rec)
  have c: "shuffled (length [''A'', ''B'']) [0, 1]" by (simp add: shuffled_def upt_rec)
  show ?thesis using a b c seating_plan_shape [OF a b c] by blast
qed

text \<open>
  \<^verbatim>\<open>create_seating_plan\<close> takes the player list only and generates the design
  itself with \<open>n = len(players)\<close>: the design it builds on always has the dimension of
  the player list, and no other design can be handed to it.
\<close>

lemma design_has_dimension_of_players:
  assumes "players \<noteq> []"
      and "shuffled (length players) symbol_perm" and "shuffled (length players) col_perm"
  shows "\<exists>latin_sq plan.
           generate_random_latin_square (length players) symbol_perm col_perm = Inr latin_sq
           \<and> length latin_sq = length players
           \<and> seating_plan_of latin_sq players = Inr plan
           \<and> create_seating_plan players symbol_perm col_perm = Inr plan"
proof -
  let ?n = "length players"
  let ?L = "map (\<lambda>i. map (\<lambda>col. symbol_perm ! ((i + col) mod ?n)) col_perm) [0..<?n]"
  have gen: "generate_random_latin_square ?n symbol_perm col_perm = Inr ?L"
    by (rule generate_closed [OF assms(2,3)])
  from create_seating_plan_closed [OF assms] obtain L plan where
    L: "generate_random_latin_square ?n symbol_perm col_perm = Inr L"
    and plan: "create_seating_plan players symbol_perm col_perm = Inr plan"
    by blast
  from L gen have "L = ?L" by simp
  then have len: "length L = ?n" by simp
  from plan L have "seating_plan_of L players = Inr plan"
    by (simp add: create_seating_plan_def)
  with L len plan show ?thesis by blast
qed

section \<open>Properties of the correction\<close>

lemma set_vorhergesagt_length [simp]: "length (set_vorhergesagt fv df) = length df"
  by (simp add: set_vorhergesagt_def)

lemma set_vorhergesagt_nth:
  "i < length df \<Longrightarrow> set_vorhergesagt fv df ! i =
     (df ! i)\<lparr>Punkte_vorhergesagt := (if i < length fv then Some (fv ! i) else None)\<rparr>"
  by (simp add: set_vorhergesagt_def nth_enumerate_eq)

lemma set_korr_length [simp]: "length (set_korr_from_vorhergesagt df) = length df"
  by (simp add: set_korr_from_vorhergesagt_def)

lemma set_korr_nth:
  "i < length df \<Longrightarrow> set_korr_from_vorhergesagt df ! i =
     (df ! i)\<lparr>Punkte_korr := map_option (\<lambda>v. Punkte (df ! i) - v) (Punkte_vorhergesagt (df ! i))\<rparr>"
  by (simp add: set_korr_from_vorhergesagt_def)

lemma naive_korr_length [simp]: "length (naive_korr df) = length df"
  by (simp add: naive_korr_def)

lemma naive_korr_nth:
  "i < length df \<Longrightarrow> naive_korr df ! i =
     (df ! i)\<lparr>Punkte_korr := Some (Punkte (df ! i) - seat_mean df (Platz (df ! i)))\<rparr>"
  by (simp add: naive_korr_def)

lemma correct_single: "\<not> 2 \<le> nunique (map Runde df_all) \<Longrightarrow> correct fit df_all = Inr (naive_korr df_all)"
  by (simp add: correct_def)

lemma correct_multi:
  "2 \<le> nunique (map Runde df_all) \<Longrightarrow>
   correct fit df_all =
     ebind (fit ''Punkte ~ C(Platz)'' df_all (map Spieler df_all)) (\<lambda>result.
       Inr (set_korr_from_vorhergesagt (set_vorhergesagt (fittedvalues result) df_all)))"
  by (simp add: correct_def)

text \<open>
  Claim C2. When the ledger holds exactly one distinct round, the correction returns
  the ledger with every row's corrected score set to its raw score minus the mean raw
  score of the rows that share its seat; on the ledger with seats 1, 2, 3 and raw
  scores 10, 20, 30 every corrected score is 0.
\<close>

theorem single_round_correction:
  "(nunique (map Runde df_all) = 1 \<longrightarrow>
      (\<exists>df. correct fit df_all = Inr df \<and> length df = length df_all
         \<and> (\<forall>i < length df_all.
               Punkte_korr (df ! i) =
                 Some (Punkte (df_all ! i)
                       - sum_list (map Punkte (filter (\<lambda>row. Platz row = Platz (df_all ! i)) df_all))
                         / real (length (filter (\<lambda>row. Platz row = Platz (df_all ! i)) df_all))))))
   \<and> map_sum id (map Punkte_korr) (correct fit ledger_one_round) = Inr [Some 0, Some 0, Some 0]"
proof (intro conjI impI)
  assume "nunique (map Runde df_all) = 1"
  then have "correct fit df_all = Inr (naive_korr df_all)" by (simp add: correct_single)
  then show "\<exists>df. correct fit df_all = Inr df \<and> length df = length df_all
         \<and> (\<forall>i < length df_all.
               Punkte_korr (df ! i) =
                 Some (Punkte (df_all ! i)
                       - sum_list (map Punkte (filter (\<lambda>row. Platz row = Platz (df_all ! i)) df_all))
                         / real (length (filter (\<lambda>row. Platz row = Platz (df_all ! i)) df_all))))"
    by (simp add: naive_korr_nth seat_mean_def Let_def)
next
  have "\<not> 2 \<le> nunique (map Runde ledger_one_round)" by (simp add: ledger_one_round_def nunique_def)
  then have "correct fit ledger_one_round = Inr (naive_korr ledger_one_round)" by (rule correct_single)
  then show "map_sum id (map Punkte_korr) (correct fit ledger_one_round) = Inr [Some 0, Some 0, Some 0]"
    by (simp add: naive_korr_def seat_mean_def ledger_one_round_def)
qed

theorem single_round_correction_witness:
  "nunique (map Runde ledger_one_round) = 1
   \<and> (\<exists>df. correct fit_raises ledger_one_round = Inr df \<and> length df = length ledger_one_round
         \<and> (\<forall>i < length ledger_one_round.
               Punkte_korr (df ! i) =
                 Some (Punkte (ledger_one_round ! i)
                       - sum_list (map Punkte (filter (\<lambda>row. Platz row = Platz (ledger_one_round ! i)) ledger_one_round))
                         / real (length (filter (\<lambda>row. Platz row = Platz (ledger_one_round ! i)) ledger_one_round)))))"
proof -
  have a: "nunique (map Runde ledger_one_round) = 1" by (simp add: ledger_one_round_def nunique_def)
  show ?thesis using a single_round_correction [of ledger_one_round fit_raises] by blast
qed

lemma ledger_two_rounds_rounds: "2 \<le> nunique (map Runde ledger_two_rounds)"
  by (simp add: ledger_two_rounds_def nunique_def)

text \<open>
  Claim C3. When the ledger holds at least two distinct rounds, the routine is called
  with the formula \<^verbatim>\<open>Punkte ~ C(Platz)\<close> (seat as a categorical fixed effect), the
  whole ledger as data and the player column as groups; when it returns a fitted value
  for every row, each row's predicted score is that fitted value and its corrected
  score is its raw score minus that fitted value.
\<close>

theorem multi_round_correction:
  assumes "2 \<le> nunique (map Runde df_all)"
      and "fit ''Punkte ~ C(Platz)'' df_all (map Spieler df_all) = Inr result"
      and "length (fittedvalues result) = length df_all"
  shows "\<exists>df. correct fit df_all = Inr df \<and> length df = length df_all
           \<and> (\<forall>i < length df_all.
                 Punkte_vorhergesagt (df ! i) = Some (fittedvalues result ! i)
                 \<and> Punkte_korr (df ! i) = Some (Punkte (df_all ! i) - fittedvalues result ! i))"
proof -
  let ?df = "set_korr_from_vorhergesagt (set_vorhergesagt (fittedvalues result) df_all)"
  have "correct fit df_all = Inr ?df"
    using assms(1,2) by (simp add: correct_multi)
  moreover have "Punkte_vorhergesagt (?df ! i) = Some (fittedvalues result ! i)
      \<and> Punkte_korr (?df ! i) = Some (Punkte (df_all ! i) - fittedvalues result ! i)"
    if "i < length df_all" for i
    using that assms(3) by (simp add: set_korr_nth set_vorhergesagt_nth)
  ultimately show ?thesis by simp
qed

theorem multi_round_correction_witness:
  "2 \<le> nunique (map Runde ledger_two_rounds)
   \<and> (fit_returns \<lparr>fittedvalues = [11, 9, 14, 10], converged = True\<rparr>)
        ''Punkte ~ C(Platz)'' ledger_two_rounds (map Spieler ledger_two_rounds)
       = Inr \<lparr>fittedvalues = [11, 9, 14, 10], converged = True\<rparr>
   \<and> length (fittedvalues \<lparr>fittedvalues = [11, 9, 14, 10], converged = True\<rparr>) = length ledger_two_rounds
   \<and> (\<exists>df. correct (fit_returns \<lparr>fittedvalues = [11, 9, 14, 10], converged = True\<rparr>) ledger_two_rounds = Inr df
         \<and> length df = length ledger_two_rounds
         \<and> (\<forall>i < length ledger_two_rounds.
               Punkte_vorhergesagt (df ! i)
                 = Some (fittedvalues \<lparr>fittedvalues = [11, 9, 14, 10], converged = True\<rparr> ! i)
               \<and> Punkte_korr (df ! i)
                 = Some (Punkte (ledger_two_rounds ! i)
                         - fittedvalues \<lparr>fittedvalues = [11, 9, 14, 10], converged = True\<rparr> ! i)))"
proof -
  let ?res = "\<lparr>fittedvalues = [11, 9, 14, 10::real], converged = True\<rparr>"
  let ?fit = "fit_returns ?res"
  have a: "2 \<le> nunique (map Runde ledger_two_rounds)" by (rule ledger_two_rounds_rounds)
  have b: "?fit ''Punkte ~ C(Platz)'' ledger_two_rounds (map Spieler ledger_two_rounds) = Inr ?res"
    by (simp add: fit_returns_def)
  have c: "length (fittedvalues ?res) = length ledger_two_rounds" by (simp add: ledger_two_rounds_def)
  from multi_round_correction [of ledger_two_rounds ?fit ?res] a b c
  have "\<exists>df. correct ?fit ledger_two_rounds = Inr df \<and> length df = length ledger_two_rounds
         \<and> (\<forall>i < length ledger_two_rounds.
               Punkte_vorhergesagt (df ! i) = Some (fittedvalues ?res ! i)
               \<and> Punkte_korr (df ! i) = Some (Punkte (ledger_two_rounds ! i) - fittedvalues ?res ! i))"
    by blast
  with a b c show ?thesis by blast
qed

text \<open>
  Claim C4, as stated, fails. On a ledger of two rounds a fit that raises ends the
  correction with that exception, and a fit that returns without having converged has
  its fitted values used like any other: in neither case does the result carry the
  per-seat centred scores.
\<close>

theorem fit_failure_is_not_recovered:
  "2 \<le> nunique (map Runde ledger_two_rounds)
   \<and> correct fit_raises ledger_two_rounds = Inl LinAlgError
   \<and> correct fit_raises ledger_two_rounds \<noteq> Inr (naive_korr ledger_two_rounds)
   \<and> map_sum id (map Punkte_korr)
        (correct (fit_returns \<lparr>fittedvalues = [0, 0, 0, 0], converged = False\<rparr>) ledger_two_rounds)
       = Inr [Some 12, Some 8, Some 15, Some 9]
   \<and> map Punkte_korr (naive_korr ledger_two_rounds) = [Some (- 3 / 2), Some (- 1 / 2), Some (3 / 2), Some (1 / 2)]"
proof (intro conjI)
  show "2 \<le> nunique (map Runde ledger_two_rounds)" by (rule ledger_two_rounds_rounds)
  show a: "correct fit_raises ledger_two_rounds = Inl LinAlgError"
    by (simp add: correct_multi [OF ledger_two_rounds_rounds] fit_raises_def)
  show "correct fit_raises ledger_two_rounds \<noteq> Inr (naive_korr ledger_two_rounds)"
    by (simp add: a)
  show "map_sum id (map Punkte_korr)
        (correct (fit_returns \<lparr>fittedvalues = [0, 0, 0, 0], converged = False\<rparr>) ledger_two_rounds)
       = Inr [Some 12, Some 8, Some 15, Some 9]"
    by (simp add: correct_multi [OF ledger_two_rounds_rounds] fit_returns_def)
      (simp add: set_korr_from_vorhergesagt_def set_vorhergesagt_def ledger_two_rounds_def)
  show "map Punkte_korr (naive_korr ledger_two_rounds)
          = [Some (- 3 / 2), Some (- 1 / 2), Some (3 / 2), Some (1 / 2)]"
    by (simp add: naive_korr_def seat_mean_def ledger_two_rounds_def)
qed

text \<open>
  Claim C4, amended. With at least two distinct rounds in the ledger, an exception of the
  fit is the outcome of the correction, and a returned result is used whether or not it
  has converged: the corrected score is the raw score minus the fitted value (absent
  where the result has no value for the row).
\<close>

theorem fit_outcome_is_used_as_is:
  assumes "2 \<le> nunique (map Runde df_all)"
  shows "(\<forall>e. fit ''Punkte ~ C(Platz)'' df_all (map Spieler df_all) = Inl e
              \<longrightarrow> correct fit df_all = Inl e)
       \<and> (\<forall>result. fit ''Punkte ~ C(Platz)'' df_all (map Spieler df_all) = Inr result
              \<longrightarrow> (\<exists>df. correct fit df_all = Inr df \<and> length df = length df_all
                    \<and> (\<forall>i < length df_all.
                          Punkte_korr (df ! i) =
                            (if i < length (fittedvalues result)
                             then Some (Punkte (df_all ! i) - fittedvalues result ! i)
                             else None))))"
proof (intro conjI allI impI)
  fix e assume "fit ''Punkte ~ C(Platz)'' df_all (map Spieler df_all) = Inl e"
  then show "correct fit df_all = Inl e" by (simp add: correct_multi [OF assms])
next
  fix result assume "fit ''Punkte ~ C(Platz)'' df_all (map Spieler df_all) = Inr result"
  then have "correct fit df_all
      = Inr (set_korr_from_vorhergesagt (set_vorhergesagt (fittedvalues result) df_all))"
    by (simp add: correct_multi [OF assms])
  then show "\<exists>df. correct fit df_all = Inr df \<and> length df = length df_all
                    \<and> (\<forall>i < length df_all.
                          Punkte_korr (df ! i) =
                            (if i < length (fittedvalues result)
                             then Some (Punkte (df_all ! i) - fittedvalues result ! i)
                             else None))"
    by (simp add: set_korr_nth set_vorhergesagt_nth)
qed

theorem fit_outcome_is_used_as_is_witness:
  "2 \<le> nunique (map Runde ledger_two_rounds)
   \<and> fit_raises ''Punkte ~ C(Platz)'' ledger_two_rounds (map Spieler ledger_two_rounds) = Inl LinAlgError
   \<and> correct fit_raises ledger_two_rounds = Inl LinAlgError"
proof -
  have a: "2 \<le> nunique (map Runde ledger_two_rounds)" by (rule ledger_two_rounds_rounds)
  have b: "fit_raises ''Punkte ~ C(Platz)'' ledger_two_rounds (map Spieler ledger_two_rounds) = Inl LinAlgError"
    by (simp add: fit_raises_def)
  from fit_outcome_is_used_as_is [OF a, of fit_raises] b
  have "correct fit_raises ledger_two_rounds = Inl LinAlgError" by blast
  with a b show ?thesis by blast
qed

section \<open>Properties of score entry and the ledger\<close>

lemma ask_points_ok:
  assumes "distinct (map Spieler rows)" "length rows \<le> length inputs"
  shows "\<exists>d'. ask_points py_float rows inputs d = Inr (d', drop (length rows) inputs)
           \<and> (\<forall>j < length rows. d' (Spieler (rows ! j)) = Some (read_score py_float (inputs ! j)))
           \<and> (\<forall>p. p \<notin> set (map Spieler rows) \<longrightarrow> d' p = d p)"
  using assms
proof (induction rows arbitrary: inputs d)
  case Nil
  then show ?case by simp
next
  case (Cons row rows)
  from Cons.prems(2) obtain eingabe ins where inputs: "inputs = eingabe # ins"
    by (cases inputs) auto
  let ?d1 = "d(Spieler row \<mapsto> read_score py_float eingabe)"
  from Cons.prems inputs have "distinct (map Spieler rows)" "length rows \<le> length ins"
    by simp_all
  from Cons.IH [OF this, of ?d1] obtain d' where
    run: "ask_points py_float rows ins ?d1 = Inr (d', drop (length rows) ins)"
    and got: "\<forall>j < length rows. d' (Spieler (rows ! j)) = Some (read_score py_float (ins ! j))"
    and kept: "\<forall>p. p \<notin> set (map Spieler rows) \<longrightarrow> d' p = ?d1 p"
    by blast
  have fresh: "Spieler row \<notin> set (map Spieler rows)" using Cons.prems(1) by simp
  have "d' (Spieler ((row # rows) ! j)) = Some (read_score py_float (inputs ! j))"
    if "j < length (row # rows)" for j
  proof (cases j)
    case 0
    then show ?thesis using kept fresh inputs by simp
  next
    case (Suc k)
    then show ?thesis using got that inputs by simp
  qed
  moreover have "d' p = d p" if "p \<notin> set (map Spieler (row # rows))" for p
    using that kept by simp
  ultimately show ?case using run inputs by simp
qed

lemma append_rows_ok:
  assumes "\<And>row. row \<in> set rows \<Longrightarrow> punkte_dict (Spieler row) \<noteq> None"
  shows "append_rows block_count r n punkte_dict rows df_all =
           Inr (df_all @ map (\<lambda>row. new_row block_count r n row (the (punkte_dict (Spieler row)))) rows)"
  using assms
proof (induction rows arbitrary: df_all)
  case Nil
  then show ?case by simp
next
  case (Cons row rows)
  from Cons.prems [of row] obtain v where v: "punkte_dict (Spieler row) = Some v" by auto
  then show ?case using Cons.IH [of "df_all @ [new_row block_count r n row v]"] Cons.prems
    by (simp add: lookup_def)
qed

lemma append_rows_Inr:
  assumes "append_rows block_count r n punkte_dict rows df_all = Inr df"
  shows "df = df_all @ map (\<lambda>row. new_row block_count r n row (the (punkte_dict (Spieler row)))) rows"
  using assms
proof (induction rows arbitrary: df_all)
  case Nil
  then show ?case by simp
next
  case (Cons row rows)
  show ?case
  proof (cases "punkte_dict (Spieler row)")
    case None
    then show ?thesis using Cons.prems by (simp add: lookup_def)
  next
    case (Some v)
    then have "append_rows block_count r n punkte_dict rows (df_all @ [new_row block_count r n row v]) = Inr df"
      using Cons.prems by (simp add: lookup_def)
    from Cons.IH [OF this] Some show ?thesis by simp
  qed
qed

text \<open>
  Claim C7. In a round whose plan seats every player once, with one line of input per
  seat, score entry and the append step raise nothing; the row appended for a player
  carries the number the builtin \<^verbatim>\<open>float\<close> reads from that player's input, and 0 where
  \<^verbatim>\<open>float\<close> rejects it.
\<close>

theorem unparsable_score_counts_zero:
  assumes "distinct (map Spieler round_plan)" and "length round_plan \<le> length inputs"
  shows "\<exists>punkte_dict df.
           ask_points py_float round_plan inputs Map.empty
             = Inr (punkte_dict, drop (length round_plan) inputs)
           \<and> append_rows block_count r n punkte_dict round_plan df_all = Inr df
           \<and> length df = length df_all + length round_plan
           \<and> (\<forall>j < length round_plan.
                 Spieler (df ! (length df_all + j)) = Spieler (round_plan ! j)
                 \<and> Punkte (df ! (length df_all + j)) =
                     (case py_float (inputs ! j) of None \<Rightarrow> 0 | Some punkte \<Rightarrow> punkte))"
proof -
  from ask_points_ok [OF assms, of py_float Map.empty] obtain d where
    run: "ask_points py_float round_plan inputs Map.empty = Inr (d, drop (length round_plan) inputs)"
    and got: "\<forall>j < length round_plan.
                d (Spieler (round_plan ! j)) = Some (read_score py_float (inputs ! j))"
    by blast
  have "d (Spieler row) \<noteq> None" if "row \<in> set round_plan" for row
    using that got by (metis in_set_conv_nth option.distinct(1))
  then have app: "append_rows block_count r n d round_plan df_all =
      Inr (df_all @ map (\<lambda>row. new_row block_count r n row (the (d (Spieler row)))) round_plan)"
    by (rule append_rows_ok)
  let ?df = "df_all @ map (\<lambda>row. new_row block_count r n row (the (d (Spieler row)))) round_plan"
  have "Spieler (?df ! (length df_all + j)) = Spieler (round_plan ! j)
      \<and> Punkte (?df ! (length df_all + j)) =
          (case py_float (inputs ! j) of None \<Rightarrow> 0 | Some punkte \<Rightarrow> punkte)"
    if "j < length round_plan" for j
    using that got by (simp add: nth_append new_row_def read_score_def split: option.split)
  then show ?thesis using run app by (intro exI [of _ d] exI [of _ ?df]) simp
qed

theorem unparsable_score_counts_zero_witness:
  "distinct (map Spieler round_plan2) \<and> length round_plan2 \<le> length [''12'', ''zwoelf'']
   \<and> map_of [(''12'', 12)] ''zwoelf'' = (None :: real option)
   \<and> (\<exists>punkte_dict df.
           ask_points (map_of [(''12'', 12)]) round_plan2 [''12'', ''zwoelf''] Map.empty
             = Inr (punkte_dict, drop (length round_plan2) [''12'', ''zwoelf''])
           \<and> append_rows 1 1 2 punkte_dict round_plan2 [] = Inr df
           \<and> length df = length ([] :: obs list) + length round_plan2
           \<and> (\<forall>j < length round_plan2.
                 Spieler (df ! (length ([] :: obs list) + j)) = Spieler (round_plan2 ! j)
                 \<and> Punkte (df ! (length ([] :: obs list) + j)) =
                     (case map_of [(''12'', 12)] ([''12'', ''zwoelf''] ! j) of
                        None \<Rightarrow> 0 | Some punkte \<Rightarrow> punkte)))"
proof -
  have a: "distinct (map Spieler round_plan2)" by (simp add: round_plan2_def)
  have b: "length round_plan2 \<le> length [''12'', ''zwoelf'']" by (simp add: round_plan2_def)
  have c: "map_of [(''12'', 12)] ''zwoelf'' = (None :: real option)" by simp
  from unparsable_score_counts_zero [OF a b, of "map_of [(''12'', 12)]" 1 1 2 "[]"] a b c
  show ?thesis by blast
qed

lemma ebind_eq_Inr: "ebind m f = Inr y \<longleftrightarrow> (\<exists>x. m = Inr x \<and> f x = Inr y)"
  by (cases m) simp_all

lemma raw_columns_updates [simp]:
  "raw_columns (row\<lparr>Punkte_korr := k\<rparr>) = raw_columns row"
  "raw_columns (row\<lparr>Punkte_vorhergesagt := v\<rparr>) = raw_columns row"
  by (simp_all add: raw_columns_def)

lemma correct_frame:
  assumes "correct fit df_all = Inr df"
  shows "length df = length df_all \<and> (\<forall>i < length df_all. raw_columns (df ! i) = raw_columns (df_all ! i))"
proof (cases "2 \<le> nunique (map Runde df_all)")
  case True
  with assms have "ebind (fit ''Punkte ~ C(Platz)'' df_all (map Spieler df_all)) (\<lambda>result.
       Inr (set_korr_from_vorhergesagt (set_vorhergesagt (fittedvalues result) df_all))) = Inr df"
    by (simp add: correct_multi)
  then obtain result :: mixedlm_result where
    "Inr (set_korr_from_vorhergesagt (set_vorhergesagt (fittedvalues result) df_all)) = Inr df"
    unfolding ebind_eq_Inr by blast
  then have "df = set_korr_from_vorhergesagt (set_vorhergesagt (fittedvalues result) df_all)"
    by simp
  then show ?thesis by (simp add: set_korr_nth set_vorhergesagt_nth)
next
  case False
  with assms have "df = naive_korr df_all" by (simp add: correct_single)
  then show ?thesis by (simp add: naive_korr_nth)
qed

text \<open>
  Claim C10. A correction pass returns a ledger of the same length whose rows agree with
  the old ones on Block, Runde, Spieler, Platz and Punkte. A pass of the round loop
  leaves the old rows at their places, unchanged in these five columns, and adds after
  them one row per row of the round's plan, with that row's player and seat, the block
  number and the round number \<open>r + (block_count - 1) * n\<close>.
\<close>

theorem ledger_frame:
  "(correct fit df_all = Inr df \<longrightarrow>
      length df = length df_all
      \<and> (\<forall>i < length df_all. raw_columns (df ! i) = raw_columns (df_all ! i)))
   \<and> (round_step fit py_float block_count r n seating_plan inputs df_all = Inr (df_all', pivot, inputs')
        \<longrightarrow> length df_all' = length df_all + length (filter (\<lambda>row. Runde row = r) seating_plan)
          \<and> (\<forall>i < length df_all. raw_columns (df_all' ! i) = raw_columns (df_all ! i))
          \<and> (\<forall>j < length (filter (\<lambda>row. Runde row = r) seating_plan).
                Runde (df_all' ! (length df_all + j)) = r + (block_count - 1) * n
                \<and> Block (df_all' ! (length df_all + j)) = block_count
                \<and> Spieler (df_all' ! (length df_all + j))
                    = Spieler (filter (\<lambda>row. Runde row = r) seating_plan ! j)
                \<and> Platz (df_all' ! (length df_all + j))
                    = Platz (filter (\<lambda>row. Runde row = r) seating_plan ! j)))"
proof (intro conjI impI)
  assume "correct fit df_all = Inr df"
  from correct_frame [OF this]
  show "length df = length df_all" 
    and "\<forall>i < length df_all. raw_columns (df ! i) = raw_columns (df_all ! i)" by simp_all
next
  let ?plan = "filter (\<lambda>row. Runde row = r) seating_plan"
  assume "round_step fit py_float block_count r n seating_plan inputs df_all = Inr (df_all', pivot, inputs')"
  then have "\<exists>d df1. append_rows block_count r n d ?plan df_all = Inr df1
      \<and> correct fit df1 = Inr df_all'"
    by (auto simp: round_step_def Let_def ebind_eq_Inr)
  then obtain d df1 where
    app: "append_rows block_count r n d ?plan df_all = Inr df1"
    and cor: "correct fit df1 = Inr df_all'"
    by blast
  let ?new = "map (\<lambda>row. new_row block_count r n row (the (d (Spieler row)))) ?plan"
  from append_rows_Inr [OF app] have df1: "df1 = df_all @ ?new" .
  from correct_frame [OF cor] have
    len: "length df_all' = length df1"
    and raw: "\<forall>i < length df1. raw_columns (df_all' ! i) = raw_columns (df1 ! i)" by simp_all
  show "length df_all' = length df_all + length ?plan" using len df1 by simp
  show "\<forall>i < length df_all. raw_columns (df_all' ! i) = raw_columns (df_all ! i)"
    using raw df1 by (simp add: nth_append)
  show "\<forall>j < length ?plan.
          Runde (df_all' ! (length df_all + j)) = r + (block_count - 1) * n
          \<and> Block (df_all' ! (length df_all + j)) = block_count
          \<and> Spieler (df_all' ! (length df_all + j)) = Spieler (?plan ! j)
          \<and> Platz (df_all' ! (length df_all + j)) = Platz (?plan ! j)"
  proof (intro allI impI)
    fix j assume j: "j < length ?plan"
    then have "raw_columns (df_all' ! (length df_all + j)) = raw_columns (df1 ! (length df_all + j))"
      using raw df1 by simp
    also have "df1 ! (length df_all + j) = new_row block_count r n (?plan ! j) (the (d (Spieler (?plan ! j))))"
      using j df1 by (simp add: nth_append)
    finally show "Runde (df_all' ! (length df_all + j)) = r + (block_count - 1) * n
          \<and> Block (df_all' ! (length df_all + j)) = block_count
          \<and> Spieler (df_all' ! (length df_all + j)) = Spieler (?plan ! j)
          \<and> Platz (df_all' ! (length df_all + j)) = Platz (?plan ! j)"
      by (simp add: raw_columns_def new_row_def)
  qed
qed

theorem ledger_frame_witness:
  "correct fit_raises ledger_one_round = Inr (naive_korr ledger_one_round)
   \<and> length (naive_korr ledger_one_round) = length ledger_one_round
   \<and> raw_columns (naive_korr ledger_one_round ! 2) = raw_columns (ledger_one_round ! 2)
   \<and> round_step fit_raises (map_of [(''12'', 12)]) 1 1 2 seating_plan2 [''12'', ''zwoelf''] []
       = Inr ([\<lparr>Runde = 1, Platz = 1, Spieler = ''A'', Block = 1, Punkte = 12,
                  Punkte_vorhergesagt = None, Punkte_korr = Some 0\<rparr>,
               \<lparr>Runde = 1, Platz = 2, Spieler = ''B'', Block = 1, Punkte = 0,
                  Punkte_vorhergesagt = None, Punkte_korr = Some 0\<rparr>],
              [(1, [(''A'', 0), (''B'', 0)])], [])
   \<and> length [\<lparr>Runde = 1, Platz = 1, Spieler = ''A'', Block = 1, Punkte = 12,
                  Punkte_vorhergesagt = None, Punkte_korr = Some 0\<rparr>,
               \<lparr>Runde = 1, Platz = 2, Spieler = ''B'', Block = 1, Punkte = (0::real),
                  Punkte_vorhergesagt = None, Punkte_korr = Some 0\<rparr>]
       = length ([] :: obs list) + length (filter (\<lambda>row. Runde row = 1) seating_plan2)"
proof -
  have a: "correct fit_raises ledger_one_round = Inr (naive_korr ledger_one_round)"
    by (simp add: correct_def nunique_def ledger_one_round_def)
  have b: "round_step fit_raises (map_of [(''12'', 12)]) 1 1 2 seating_plan2 [''12'', ''zwoelf''] []
       = Inr ([\<lparr>Runde = 1, Platz = 1, Spieler = ''A'', Block = 1, Punkte = 12,
                  Punkte_vorhergesagt = None, Punkte_korr = Some 0\<rparr>,
               \<lparr>Runde = 1, Platz = 2, Spieler = ''B'', Block = 1, Punkte = 0,
                  Punkte_vorhergesagt = None, Punkte_korr = Some 0\<rparr>],
              [(1, [(''A'', 0), (''B'', 0)])], [])"
    by (simp add: round_step_def seating_plan2_def read_score_def lookup_def new_row_def
          correct_def nunique_def naive_korr_def seat_mean_def pivot_cum_def df_agg_def
          group_sums_def korr_value_def pivot_cell_def fillna0_def)
  from ledger_frame [where fit = fit_raises and df_all = ledger_one_round
      and df = "naive_korr ledger_one_round"] a
  have "length (naive_korr ledger_one_round) = length ledger_one_round
   \<and> (\<forall>i < length ledger_one_round.
         raw_columns (naive_korr ledger_one_round ! i) = raw_columns (ledger_one_round ! i))"
    by blast
  moreover have "2 < length ledger_one_round" by (simp add: ledger_one_round_def)
  ultimately have c: "length (naive_korr ledger_one_round) = length ledger_one_round
   \<and> raw_columns (naive_korr ledger_one_round ! 2) = raw_columns (ledger_one_round ! 2)"
    by blast
  from ledger_frame [where fit = fit_raises and df_all = "[]" and py_float = "map_of [(''12'', 12)]"
      and block_count = 1 and r = 1 and n = 2 and seating_plan = seating_plan2
      and inputs = "[''12'', ''zwoelf'']"] b
  have d: "length [\<lparr>Runde = 1, Platz = 1, Spieler = ''A'', Block = 1, Punkte = 12,
                  Punkte_vorhergesagt = None, Punkte_korr = Some 0\<rparr>,
               \<lparr>Runde = 1, Platz = 2, Spieler = ''B'', Block = 1, Punkte = (0::real),
                  Punkte_vorhergesagt = None, Punkte_korr = Some 0\<rparr>]
       = length ([] :: obs list) + length (filter (\<lambda>row. Runde row = 1) seating_plan2)"
    by blast
  from a b c d show ?thesis by blast
qed

section \<open>Properties of the running totals\<close>

lemma sum_list_filter_disj:
  fixes f :: "'a \<Rightarrow> real"
  assumes "\<And>x. x \<in> set xs \<Longrightarrow> \<not> (P x \<and> Q x)"
  shows "sum_list (map f (filter (\<lambda>x. P x \<or> Q x) xs))
           = sum_list (map f (filter P xs)) + sum_list (map f (filter Q xs))"
  using assms by (induction xs) auto

lemma sum_over_groups:
  fixes f :: "'a \<Rightarrow> real"
  assumes "distinct ks"
  shows "sum_list (map (\<lambda>k. sum_list (map f (filter (\<lambda>x. key x = k) xs))) ks)
           = sum_list (map f (filter (\<lambda>x. key x \<in> set ks) xs))"
  using assms
proof (induction ks)
  case Nil
  then show ?case by simp
next
  case (Cons k ks)
  have "sum_list (map f (filter (\<lambda>x. key x = k \<or> key x \<in> set ks) xs))
      = sum_list (map f (filter (\<lambda>x. key x = k) xs))
        + sum_list (map f (filter (\<lambda>x. key x \<in> set ks) xs))"
    using Cons.prems by (intro sum_list_filter_disj) auto
  then show ?case using Cons by simp
qed

lemma cumsum_keys:
  "map (\<lambda>a. (agg_Runde a, agg_Spieler a)) (cumsum_by_Spieler acc xs) = map (\<lambda>(r, p, v). (r, p)) xs"
  by (induction xs arbitrary: acc) auto

lemma cumsum_mem:
  assumes "a \<in> set (cumsum_by_Spieler acc xs)"
  shows "\<exists>ys zs v. xs = ys @ (agg_Runde a, agg_Spieler a, v) # zs
           \<and> Punkte_korr_cum a
               = acc (agg_Spieler a)
                 + sum_list (map (\<lambda>(r, p, v). v) (filter (\<lambda>(r, p, v). p = agg_Spieler a) ys)) + v"
  using assms
proof (induction acc xs rule: cumsum_by_Spieler.induct)
  case (1 acc)
  then show ?case by simp
next
  case (2 acc r p v rest)
  let ?hd = "\<lparr>agg_Runde = r, agg_Spieler = p, agg_Punkte_korr = v, Punkte_korr_cum = acc p + v\<rparr>"
  show ?case
  proof (cases "a = ?hd")
    case True
    then have "(r, p, v) # rest = [] @ (agg_Runde a, agg_Spieler a, v) # rest
       \<and> Punkte_korr_cum a = acc (agg_Spieler a)
           + sum_list (map (\<lambda>(r, p, v). v) (filter (\<lambda>(r, p, v). p = agg_Spieler a) [])) + v"
      by simp
    then show ?thesis by blast
  next
    case False
    with "2.prems" have "a \<in> set (cumsum_by_Spieler (acc(p := acc p + v)) rest)" by simp
    from "2.IH" [OF this] obtain ys zs w where
      rest: "rest = ys @ (agg_Runde a, agg_Spieler a, w) # zs"
      and cum: "Punkte_korr_cum a = (acc(p := acc p + v)) (agg_Spieler a)
                 + sum_list (map (\<lambda>(r, p, v). v) (filter (\<lambda>(r, p, v). p = agg_Spieler a) ys)) + w"
      by blast
    have "(r, p, v) # rest = ((r, p, v) # ys) @ (agg_Runde a, agg_Spieler a, w) # zs
       \<and> Punkte_korr_cum a = acc (agg_Spieler a)
           + sum_list (map (\<lambda>(r, p, v). v) (filter (\<lambda>(r, p, v). p = agg_Spieler a) ((r, p, v) # ys))) + w"
      using rest cum by simp
    then show ?thesis by blast
  qed
qed

lemma group_sums_eq:
  "group_sums df_all =
     map (\<lambda>k. (fst k, snd k,
                sum_list (map korr_value (filter (\<lambda>row. (Runde row, Spieler row) = k) df_all))))
       (sort (remdups (map (\<lambda>row. (Runde row, Spieler row)) df_all)))"
  by (simp add: group_sums_def case_prod_beta prod_eq_iff)

lemma sum_of_player:
  "sum_list (map (\<lambda>(r, p, v). v) (filter (\<lambda>(r, p, v). p = pa) (map (\<lambda>k. (fst k, snd k, S k)) ks)))
     = sum_list (map S (filter (\<lambda>k. snd k = pa) ks))"
  by (induction ks) simp_all

lemma df_agg_cum:
  assumes "df_agg df_all = Inr agg" and "a \<in> set agg"
  shows "Punkte_korr_cum a
           = sum_list (map korr_value
               (filter (\<lambda>row. Spieler row = agg_Spieler a \<and> Runde row \<le> agg_Runde a) df_all))"
proof -
  let ?key = "\<lambda>row :: obs. (Runde row, Spieler row)"
  let ?keys = "sort (remdups (map ?key df_all))"
  let ?S = "\<lambda>k. sum_list (map korr_value (filter (\<lambda>row. ?key row = k) df_all))"
  let ?g = "\<lambda>k. (fst k, snd k, ?S k)"
  let ?ra = "agg_Runde a" and ?pa = "agg_Spieler a"
  from assms have "a \<in> set (cumsum_by_Spieler (\<lambda>p. 0) (map ?g ?keys))"
    by (simp add: df_agg_def group_sums_eq split: if_splits)
  from cumsum_mem [OF this] obtain ys zs v where
    split: "map ?g ?keys = ys @ (?ra, ?pa, v) # zs"
    and cum: "Punkte_korr_cum a
               = 0 + sum_list (map (\<lambda>(r, p, v). v) (filter (\<lambda>(r, p, v). p = ?pa) ys)) + v"
    by blast
  from split obtain ks1 rest where
    keys1: "?keys = ks1 @ rest" and ys: "ys = map ?g ks1" and rest: "map ?g rest = (?ra, ?pa, v) # zs"
    by (auto simp: map_eq_append_conv)
  from rest obtain k ks2 where rest2: "rest = k # ks2" and k: "?g k = (?ra, ?pa, v)"
    by (auto simp: map_eq_Cons_conv)
  from k have kval: "k = (?ra, ?pa)" and v: "v = ?S (?ra, ?pa)" by (auto simp: prod_eq_iff)
  have keys: "?keys = ks1 @ (?ra, ?pa) # ks2" using keys1 rest2 kval by simp
  have srt: "sorted (ks1 @ (?ra, ?pa) # ks2)" and dst: "distinct (ks1 @ (?ra, ?pa) # ks2)"
    using keys [symmetric] by simp_all
  let ?ks' = "filter (\<lambda>k. snd k = ?pa) ks1 @ [(?ra, ?pa)]"
  have dks': "distinct ?ks'" using dst by auto
  have "Punkte_korr_cum a = sum_list (map ?S (filter (\<lambda>k. snd k = ?pa) ks1)) + ?S (?ra, ?pa)"
    using cum ys v by (simp add: sum_of_player)
  also have "\<dots> = sum_list (map ?S ?ks')" by simp
  also have "\<dots> = sum_list (map korr_value (filter (\<lambda>row. ?key row \<in> set ?ks') df_all))"
    by (rule sum_over_groups [OF dks'])
  also have "filter (\<lambda>row. ?key row \<in> set ?ks') df_all
      = filter (\<lambda>row. Spieler row = ?pa \<and> Runde row \<le> ?ra) df_all"
  proof (rule filter_cong [OF refl])
    fix row assume row: "row \<in> set df_all"
    then have mem: "?key row \<in> set ks1 \<or> ?key row = (?ra, ?pa) \<or> ?key row \<in> set ks2"
      using keys by (metis (no_types, lifting) Un_iff image_eqI insert_iff list.set(2) set_append
          set_map set_remdups set_sort)
    show "(?key row \<in> set ?ks') = (Spieler row = ?pa \<and> Runde row \<le> ?ra)"
    proof
      assume "?key row \<in> set ?ks'"
      then consider "?key row \<in> set ks1" "Spieler row = ?pa" | "?key row = (?ra, ?pa)" by auto
      then show "Spieler row = ?pa \<and> Runde row \<le> ?ra"
      proof cases
        case 1
        then have "?key row \<le> (?ra, ?pa)" using srt by (auto simp: sorted_append)
        with 1 show ?thesis by (auto simp: less_eq_prod_simp)
      next
        case 2
        then show ?thesis by simp
      qed
    next
      assume h: "Spieler row = ?pa \<and> Runde row \<le> ?ra"
      have "?key row \<notin> set ks2"
      proof
        assume in2: "?key row \<in> set ks2"
        then have "(?ra, ?pa) \<le> ?key row" using srt by (auto simp: sorted_append)
        with h have "?key row = (?ra, ?pa)" by (auto simp: less_eq_prod_simp)
        with in2 dst show False by simp
      qed
      with mem h show "?key row \<in> set ?ks'" by auto
    qed
  qed
  finally show ?thesis .
qed

lemma df_agg_keys:
  assumes "df_agg df_all = Inr agg"
  shows "map (\<lambda>a. (agg_Runde a, agg_Spieler a)) agg
     = sort (remdups (map (\<lambda>row. (Runde row, Spieler row)) df_all))"
  using assms by (auto simp: df_agg_def cumsum_keys group_sums_eq comp_def split: if_splits)

lemma df_agg_Inr: "df_all \<noteq> [] \<Longrightarrow> \<exists>agg. df_agg df_all = Inr agg"
  by (simp add: df_agg_def)

lemma korr_value_inline:
  "korr_value = (\<lambda>row. case Punkte_korr row of None \<Rightarrow> 0 | Some k \<Rightarrow> k)"
  by (simp add: korr_value_def fun_eq_iff)

lemma sorted_map_fst:
  fixes xs :: "('a::linorder \<times> 'b::linorder) list"
  shows "sorted xs \<Longrightarrow> sorted (map fst xs)"
proof (induction xs)
  case Nil
  then show ?case by simp
next
  case (Cons x xs)
  have "fst x \<le> fst y" if "y \<in> set xs" for y
  proof -
    from Cons.prems that have "x \<le> y" by simp
    then show ?thesis by (cases x, cases y) (auto simp: less_eq_prod_simp)
  qed
  then show ?case using Cons by simp
qed

lemma df_agg_eval:
  "df_agg ledger_three_rounds =
     Inr [\<lparr>agg_Runde = 1, agg_Spieler = ''A'', agg_Punkte_korr = 2, Punkte_korr_cum = 2\<rparr>,
          \<lparr>agg_Runde = 1, agg_Spieler = ''B'', agg_Punkte_korr = 1, Punkte_korr_cum = 1\<rparr>,
          \<lparr>agg_Runde = 2, agg_Spieler = ''A'', agg_Punkte_korr = - 1, Punkte_korr_cum = 1\<rparr>,
          \<lparr>agg_Runde = 2, agg_Spieler = ''B'', agg_Punkte_korr = 0, Punkte_korr_cum = 1\<rparr>,
          \<lparr>agg_Runde = 3, agg_Spieler = ''A'', agg_Punkte_korr = 3, Punkte_korr_cum = 4\<rparr>,
          \<lparr>agg_Runde = 3, agg_Spieler = ''B'', agg_Punkte_korr = - 3, Punkte_korr_cum = - 2\<rparr>]"
  by (simp add: df_agg_def group_sums_def ledger_three_rounds_def corrected_row_def korr_value_def)

text \<open>
  Claim C8. For a ledger that has rows, \<^verbatim>\<open>df_agg\<close> has one row for every
  (round, player) pair of the ledger, in increasing order of round, and the running total
  of a row is the sum of the column \<^verbatim>\<open>Punkte_korr\<close> over the player's rows of the
  rounds up to and including the row's round. Player A of the three-round ledger has the
  raw scores 12, 7, 14 and the corrected scores 2, -1, 3, and the running totals 2, 1, 4.
\<close>

theorem cumulative_totals:
  "(df_all \<noteq> [] \<longrightarrow>
      (\<exists>agg. df_agg df_all = Inr agg
         \<and> (\<forall>a \<in> set agg.
               Punkte_korr_cum a
                 = sum_list (map (\<lambda>row. case Punkte_korr row of None \<Rightarrow> 0 | Some k \<Rightarrow> k)
                     (filter (\<lambda>row. Spieler row = agg_Spieler a \<and> Runde row \<le> agg_Runde a) df_all)))
         \<and> map (\<lambda>a. (agg_Runde a, agg_Spieler a)) agg
             = sort (remdups (map (\<lambda>row. (Runde row, Spieler row)) df_all))
         \<and> sorted (map agg_Runde agg)))
   \<and> map Runde (filter (\<lambda>row. Spieler row = ''A'') ledger_three_rounds) = [1, 2, 3]
   \<and> map Punkte (filter (\<lambda>row. Spieler row = ''A'') ledger_three_rounds) = [12, 7, 14]
   \<and> map Punkte_korr (filter (\<lambda>row. Spieler row = ''A'') ledger_three_rounds)
       = [Some 2, Some (- 1), Some 3]
   \<and> (\<exists>agg. df_agg ledger_three_rounds = Inr agg
         \<and> map (\<lambda>a. (agg_Runde a, Punkte_korr_cum a)) (filter (\<lambda>a. agg_Spieler a = ''A'') agg)
             = [(1, 2), (2, 1), (3, 4)])"
proof (intro conjI impI)
  assume "df_all \<noteq> []"
  then obtain agg where agg: "df_agg df_all = Inr agg" using df_agg_Inr by blast
  have cum: "\<forall>a \<in> set agg.
               Punkte_korr_cum a
                 = sum_list (map (\<lambda>row. case Punkte_korr row of None \<Rightarrow> 0 | Some k \<Rightarrow> k)
                     (filter (\<lambda>row. Spieler row = agg_Spieler a \<and> Runde row \<le> agg_Runde a) df_all))"
    using df_agg_cum [OF agg] unfolding korr_value_inline by blast
  have keys: "map (\<lambda>a. (agg_Runde a, agg_Spieler a)) agg
       = sort (remdups (map (\<lambda>row. (Runde row, Spieler row)) df_all))"
    by (rule df_agg_keys [OF agg])
  have "sorted (map fst (map (\<lambda>a. (agg_Runde a, agg_Spieler a)) agg))"
    unfolding keys by (rule sorted_map_fst) simp
  then have "sorted (map agg_Runde agg)" by (simp add: comp_def)
  with agg cum keys show "\<exists>agg. df_agg df_all = Inr agg
         \<and> (\<forall>a \<in> set agg.
               Punkte_korr_cum a
                 = sum_list (map (\<lambda>row. case Punkte_korr row of None \<Rightarrow> 0 | Some k \<Rightarrow> k)
                     (filter (\<lambda>row. Spieler row = agg_Spieler a \<and> Runde row \<le> agg_Runde a) df_all)))
         \<and> map (\<lambda>a. (agg_Runde a, agg_Spieler a)) agg
             = sort (remdups (map (\<lambda>row. (Runde row, Spieler row)) df_all))
         \<and> sorted (map agg_Runde agg)"
    by blast
next
  show "map Runde (filter (\<lambda>row. Spieler row = ''A'') ledger_three_rounds) = [1, 2, 3]"
    by (simp add: ledger_three_rounds_def corrected_row_def)
next
  show "map Punkte (filter (\<lambda>row. Spieler row = ''A'') ledger_three_rounds) = [12, 7, 14]"
    by (simp add: ledger_three_rounds_def corrected_row_def)
next
  show "map Punkte_korr (filter (\<lambda>row. Spieler row = ''A'') ledger_three_rounds)
       = [Some 2, Some (- 1), Some 3]"
    by (simp add: ledger_three_rounds_def corrected_row_def)
next
  show "\<exists>agg. df_agg ledger_three_rounds = Inr agg
         \<and> map (\<lambda>a. (agg_Runde a, Punkte_korr_cum a)) (filter (\<lambda>a. agg_Spieler a = ''A'') agg)
             = [(1, 2), (2, 1), (3, 4)]"
    by (simp add: df_agg_eval)
qed

theorem cumulative_totals_witness:
  "ledger_three_rounds \<noteq> []
   \<and> (\<exists>agg. df_agg ledger_three_rounds = Inr agg
         \<and> \<lparr>agg_Runde = 3, agg_Spieler = ''A'', agg_Punkte_korr = 3, Punkte_korr_cum = 4\<rparr> \<in> set agg)
   \<and> (4 :: real)
       = sum_list (map (\<lambda>row. case Punkte_korr row of None \<Rightarrow> 0 | Some k \<Rightarrow> k)
           (filter (\<lambda>row. Spieler row = ''A'' \<and> Runde row \<le> 3) ledger_three_rounds))"
proof -
  let ?a = "\<lparr>agg_Runde = 3, agg_Spieler = ''A'', agg_Punkte_korr = 3 :: real, Punkte_korr_cum = 4 :: real\<rparr>"
  have ne: "ledger_three_rounds \<noteq> []" by (simp add: ledger_three_rounds_def)
  with cumulative_totals [of ledger_three_rounds] obtain agg where
    agg: "df_agg ledger_three_rounds = Inr agg"
    and cum: "\<forall>a \<in> set agg.
               Punkte_korr_cum a
                 = sum_list (map (\<lambda>row. case Punkte_korr row of None \<Rightarrow> 0 | Some k \<Rightarrow> k)
                     (filter (\<lambda>row. Spieler row = agg_Spieler a \<and> Runde row \<le> agg_Runde a)
                        ledger_three_rounds))"
    by blast
  from agg have a: "?a \<in> set agg" by (auto simp: df_agg_eval)
  from bspec [OF cum a]
  have "(4 :: real)
       = sum_list (map (\<lambda>row. case Punkte_korr row of None \<Rightarrow> 0 | Some k \<Rightarrow> k)
           (filter (\<lambda>row. Spieler row = ''A'' \<and> Runde row \<le> 3) ledger_three_rounds))"
    by simp
  with ne agg a show ?thesis by blast
qed



text \<open>
  The ledgers that the round loop builds. In every round of a seating plan each player
  of the list sits once, and a pass of the loop appends one row per row of the round's
  plan: if every player of the set \<open>P\<close> has a row in every round of the ledger, and the
  round's plan seats exactly the players of \<open>P\<close>, the ledger after the pass has the same
  property. No player is ever absent from a round of such a ledger.
\<close>

lemma round_plan_players:
  assumes "players \<noteq> []"
    and "shuffled (length players) symbol_perm" and "shuffled (length players) col_perm"
    and plan: "create_seating_plan players symbol_perm col_perm = Inr seating_plan"
    and r: "1 \<le> r" "r \<le> int (length players)"
  shows "mset (map Spieler (filter (\<lambda>row. Runde row = r) seating_plan)) = mset players"
proof -
  let ?n = "length players"
  let ?L = "map (\<lambda>i. map (\<lambda>col. symbol_perm ! ((i + col) mod ?n)) col_perm) [0..<?n]"
  let ?cell = "\<lambda>q seat. \<lparr>Runde = int q + 1, Platz = int seat + 1, Spieler = players ! (?L ! q ! seat)\<rparr>"
  let ?r0 = "nat (r - 1)"
  have r0: "?r0 < ?n" "int ?r0 + 1 = r" using r by simp_all
  have gen: "generate_random_latin_square ?n symbol_perm col_perm = Inr ?L"
    by (rule generate_closed [OF assms(2,3)])
  from create_seating_plan_closed [OF assms(1-3)] gen plan
  have sp: "seating_plan = concat (map (\<lambda>q. map (?cell q) [0..<?n]) [0..<?n])"
    by auto
  have "filter (\<lambda>row. Runde row = r) seating_plan = map (?cell ?r0) [0..<?n]"
    unfolding sp by (rule grid_filter_row) (use r0 in auto)
  then have "map Spieler (filter (\<lambda>row. Runde row = r) seating_plan)
      = map (\<lambda>seat. players ! (?L ! ?r0 ! seat)) [0..<?n]"
    by (simp add: comp_def)
  also have "\<dots> = map ((!) players) (map (\<lambda>col. symbol_perm ! ((?r0 + col) mod ?n)) col_perm)"
    using r0(1) shuffled_length [OF assms(3)]
    by (intro nth_equalityI) simp_all
  finally have "mset (map Spieler (filter (\<lambda>row. Runde row = r) seating_plan))
      = mset (map ((!) players) (map (\<lambda>col. symbol_perm ! ((?r0 + col) mod ?n)) col_perm))"
    by (rule arg_cong)
  also have "\<dots> = image_mset ((!) players)
                   (mset (map (\<lambda>col. symbol_perm ! ((?r0 + col) mod ?n)) col_perm))"
    by (rule mset_map)
  also have "\<dots> = image_mset ((!) players) (mset [0..<?n])"
    by (simp only: row_mset [OF assms(2,3)])
  also have "\<dots> = mset players" by (metis map_nth mset_map)
  finally show ?thesis .
qed

lemma round_step_keys:
  assumes "round_step fit py_float block_count r n seating_plan inputs df_all
             = Inr (df_all', pivot, inputs')"
  shows "map (\<lambda>row. (Runde row, Spieler row)) df_all'
       = map (\<lambda>row. (Runde row, Spieler row)) df_all
         @ map (\<lambda>row. (r + (block_count - 1) * n, Spieler row))
             (filter (\<lambda>row. Runde row = r) seating_plan)"
proof -
  let ?plan = "filter (\<lambda>row. Runde row = r) seating_plan"
  from assms have "\<exists>d df1. append_rows block_count r n d ?plan df_all = Inr df1
      \<and> correct fit df1 = Inr df_all'"
    by (auto simp: round_step_def Let_def ebind_eq_Inr)
  then obtain d df1 where
    app: "append_rows block_count r n d ?plan df_all = Inr df1"
    and cor: "correct fit df1 = Inr df_all'"
    by blast
  let ?new = "map (\<lambda>row. new_row block_count r n row (the (d (Spieler row)))) ?plan"
  from append_rows_Inr [OF app] have df1: "df1 = df_all @ ?new" .
  from correct_frame [OF cor] have
    len: "length df_all' = length df1"
    and raw: "\<forall>i < length df1. raw_columns (df_all' ! i) = raw_columns (df1 ! i)" by simp_all
  have "map raw_columns df_all' = map raw_columns df1"
    by (rule nth_equalityI) (use len raw in simp_all)
  then have "map (\<lambda>(b, q, p, s, v). (q, p)) (map raw_columns df_all')
      = map (\<lambda>(b, q, p, s, v). (q, p)) (map raw_columns df1)"
    by simp
  then have "map (\<lambda>row. (Runde row, Spieler row)) df_all'
      = map (\<lambda>row. (Runde row, Spieler row)) df1"
    by (simp add: comp_def raw_columns_def)
  then show ?thesis by (simp add: df1 comp_def new_row_def)
qed

lemma round_step_every_player:
  assumes step: "round_step fit py_float block_count r n seating_plan inputs df_all
             = Inr (df_all', pivot, inputs')"
    and old: "\<forall>q \<in> set (map Runde df_all). \<forall>p \<in> P.
                \<exists>row \<in> set df_all. Runde row = q \<and> Spieler row = p"
    and players: "set (map Spieler df_all) \<subseteq> P"
    and plan: "set (map Spieler (filter (\<lambda>row. Runde row = r) seating_plan)) = P"
  shows "set (map Spieler df_all') = P
     \<and> (\<forall>q \<in> set (map Runde df_all'). \<forall>p \<in> set (map Spieler df_all').
           \<exists>row \<in> set df_all'. Runde row = q \<and> Spieler row = p)"
proof -
  let ?plan = "filter (\<lambda>row. Runde row = r) seating_plan"
  let ?g = "r + (block_count - 1) * n"
  let ?K = "\<lambda>df :: obs list. (\<lambda>row. (Runde row, Spieler row)) ` set df"
  have "set (map (\<lambda>row. (Runde row, Spieler row)) df_all')
      = set (map (\<lambda>row. (Runde row, Spieler row)) df_all
             @ map (\<lambda>row. (?g, Spieler row)) ?plan)"
    by (simp only: round_step_keys [OF step])
  then have K: "?K df_all' = ?K df_all \<union> (\<lambda>p. (?g, p)) ` P"
    using plan by (auto simp: image_image image_Un)
  have mem: "(\<exists>row \<in> set df. Runde row = q \<and> Spieler row = p) \<longleftrightarrow> (q, p) \<in> ?K df"
    for df :: "obs list" and q p
    by auto
  have sp: "set (map Spieler df_all') = snd ` ?K df_all'" by (simp add: image_image)
  have "snd ` ?K df_all = set (map Spieler df_all)" by (simp add: image_image)
  then have P: "set (map Spieler df_all') = P"
    unfolding sp K using players by (auto simp: image_Un image_image)
  have "(q, p) \<in> ?K df_all'" if q: "q \<in> set (map Runde df_all')" and p: "p \<in> P" for q p
  proof -
    from q have "q \<in> fst ` ?K df_all'" by (simp add: image_image)
    then have "q \<in> set (map Runde df_all) \<or> q = ?g"
      unfolding K by (auto simp: image_Un image_image)
    then show ?thesis
    proof
      assume "q \<in> set (map Runde df_all)"
      with old p have "\<exists>row \<in> set df_all. Runde row = q \<and> Spieler row = p" by blast
      then have "(q, p) \<in> ?K df_all" by (simp only: mem)
      then show ?thesis unfolding K by blast
    next
      assume "q = ?g"
      with p show ?thesis unfolding K by blast
    qed
  qed
  then have "\<forall>q \<in> set (map Runde df_all'). \<forall>p \<in> P.
           \<exists>row \<in> set df_all'. Runde row = q \<and> Spieler row = p"
    by (simp only: mem) blast
  with P show ?thesis by simp
qed



end
